theory Spec2Isabelle
  imports Main "HOL-Library.Sublist"
begin

section \<open>JavaScript values used by the bot\<close>

text \<open>
  Strings are \<^typ>\<open>string\<close>. A value that may be \<^verbatim>\<open>null\<close> or
  \<^verbatim>\<open>undefined\<close> is an \<^typ>\<open>'a option\<close>. An exception is the message of the
  thrown \<^verbatim>\<open>Error\<close>, carried on the left of a sum.
\<close>

text \<open>\<^verbatim>\<open>s.includes(t)\<close>: \<open>t\<close> occurs in \<open>s\<close> as a contiguous run.\<close>

fun str_includes :: "string \<Rightarrow> string \<Rightarrow> bool" where
  "str_includes [] t = (t = [])"
| "str_includes (c # s) t = (prefix t (c # s) \<or> str_includes s t)"

text \<open>
  A \<^typ>\<open>char\<close> is a code unit below 256, so a \<^typ>\<open>string\<close> is a JavaScript string
  whose code units are all below 256. \<^verbatim>\<open>String.prototype.trim\<close> strips white space
  and line terminators; below 256 these are U+0009 to U+000D, U+0020 and U+00A0.
\<close>

definition is_space :: "char \<Rightarrow> bool" where
  "is_space c = (c = CHR '' '' \<or> c = CHR 0x09 \<or> c = CHR 0x0A \<or> c = CHR 0x0B
                 \<or> c = CHR 0x0C \<or> c = CHR 0x0D \<or> c = CHR 0xA0)"

definition trim :: "string \<Rightarrow> string" where
  "trim s = rev (dropWhile is_space (rev (dropWhile is_space s)))"

text \<open>Truthiness of a string-or-null value: \<^verbatim>\<open>null\<close> and \<^verbatim>\<open>''\<close> are falsy.\<close>

definition truthy :: "string option \<Rightarrow> bool" where
  "truthy v = (case v of None \<Rightarrow> False | Some s \<Rightarrow> s \<noteq> [])"

text \<open>\<^verbatim>\<open>a || b\<close> on such values.\<close>

definition js_or :: "string option \<Rightarrow> string option \<Rightarrow> string option" where
  "js_or a b = (if truthy a then a else b)"

text \<open>
  \<^verbatim>\<open>Math.random()\<close> is a draw \<open>r\<close> from the random source, a natural number:
  \<^verbatim>\<open>Math.floor(Math.random() * n)\<close> is \<open>r mod n\<close>, so every outcome below \<open>n\<close> occurs and
  no other, and \<^verbatim>\<open>Math.random() < p / 100\<close> is \<open>r mod 100 < p\<close>.
\<close>

text \<open>
  \<^verbatim>\<open>StealthManager.randomDelay(min, max)\<close>: the milliseconds waited,
  \<^verbatim>\<open>Math.floor(Math.random() * (max - min + 1)) + min\<close>.
\<close>

definition randomDelay :: "nat \<Rightarrow> nat \<Rightarrow> nat \<Rightarrow> nat" where
  "randomDelay lo hi r = r mod (hi - lo + 1) + lo"

section \<open>The page as the chat manager sees it\<close>

text \<open>
  An element handle, by what \<^verbatim>\<open>extractMessageData\<close> reads from it inside
  \<^verbatim>\<open>element.evaluate\<close>: its class list, the class lists of its ancestors (nearest first, for
  \<^verbatim>\<open>el.closest\<close>), the text of the first descendant that each \<^verbatim>\<open>querySelector\<close> finds
  (\<open>None\<close> when none matches), its own text content and four attributes (\<open>None\<close> when
  \<^verbatim>\<open>getAttribute\<close> gives \<^verbatim>\<open>null\<close>). \<open>objectString\<close> is the element converted to
  a string, such as \<^verbatim>\<open>[object HTMLDivElement]\<close>. \<open>evaluateThrows\<close> is set when
  \<^verbatim>\<open>element.evaluate\<close> rejects before the callback runs, as it does on a detached
  element.
\<close>

record element =
  classList :: "string list"
  ancestorClasses :: "string list list"
  className :: string
  objectString :: string
  textChild :: "string option"
  textContent :: string
  timeChild :: "string option"
  dataTime :: "string option"
  timestampAttr :: "string option"
  senderChild :: "string option"
  dataId :: "string option"
  idAttr :: "string option"
  evaluateThrows :: bool

text \<open>
  The \<^verbatim>\<open>id\<close> of a message: an attribute of the element, or the synthesized
  \<^verbatim>\<open>msg_${Date.now()}_${idx}\<close>, kept as the clock and the string that \<^verbatim>\<open>idx\<close>
  converts to.
\<close>

datatype message_id = NativeId string | SynthId int string

record message =
  id_f :: message_id
  text_f :: string
  sender :: string
  timestamp :: string
  type_f :: string
  element_class :: string

text \<open>
  \<^verbatim>\<open>new Date(ts)\<close> as milliseconds since the epoch, \<open>None\<close> for an invalid date.
  \<open>parseDate\<close> is the engine's parser of date strings.
\<close>

definition dateOf :: "(string \<Rightarrow> int option) \<Rightarrow> string \<Rightarrow> int option" where
  "dateOf parseDate ts = parseDate ts"

text \<open>
  \<^verbatim>\<open>handle.evaluate(pageFunction, arg)\<close> of the browser library calls
  \<^verbatim>\<open>pageFunction(element, arg)\<close> in the page. It takes one argument for the function; a
  further one is dropped.
\<close>

definition elementEvaluate :: "(element \<Rightarrow> 'a \<Rightarrow> 'r) \<Rightarrow> element \<Rightarrow> 'a \<Rightarrow> 'b \<Rightarrow> 'r" where
  "elementEvaluate pageFunction el arg dropped = pageFunction el arg"

text \<open>
  \<^verbatim>\<open>const now = new Date(); now.setMinutes(now.getMinutes() - idx); now.toISOString()\<close>
  where \<open>idx\<close> is an element: an element converts to no number, the difference is
  \<^verbatim>\<open>NaN\<close>, the date becomes invalid and \<^verbatim>\<open>toISOString\<close> throws a
  \<^verbatim>\<open>RangeError\<close>.
\<close>

definition minutesBefore :: "int \<Rightarrow> element \<Rightarrow> string + string" where
  "minutesBefore now idx = Inl ''Invalid time value''"

text \<open>The four class names that mark a message as the user's own.\<close>

definition ownMarkers :: "string list" where
  "ownMarkers = [''own-message'', ''sent'', ''outgoing'', ''message_sender'']"

text \<open>\<^verbatim>\<open>classes.contains(c)\<close> for some marker \<open>c\<close>.\<close>

definition hasOwnMarker :: "string list \<Rightarrow> bool" where
  "hasOwnMarker classes = list_ex (\<lambda>c. List.member classes c) ownMarkers"

text \<open>
  \<^verbatim>\<open>el.classList.contains('own-message') || ... || el.closest('.own-message, .sent,
  .outgoing, .message_sender')\<close>, as a truth value: \<^verbatim>\<open>closest\<close> looks at the element and
  then at each ancestor.
\<close>

definition isOwnMessage :: "element \<Rightarrow> bool" where
  "isOwnMessage el =
     (hasOwnMarker (classList el) \<or> list_ex hasOwnMarker (classList el # ancestorClasses el))"

text \<open>
  The timestamp of an element, lines 251 to 284 of the callback, with \<open>idx\<close> its second
  parameter. With no text found the offset timestamp is computed outside any
  \<^verbatim>\<open>try\<close>. A text that contains \<^verbatim>\<open>T\<close> and \<^verbatim>\<open>Z\<close> is kept when it parses to
  a valid date; when it does not, the \<^verbatim>\<open>try\<close> throws and its handler computes the
  offset timestamp. Every other text has the offset timestamp computed inside the
  \<^verbatim>\<open>try\<close>, and again in the handler when that throws.
\<close>

definition extractTimestamp ::
  "(string \<Rightarrow> int option) \<Rightarrow> int \<Rightarrow> element \<Rightarrow> element \<Rightarrow> string + string" where
  "extractTimestamp parseDate now el idx =
     (case js_or (map_option trim (timeChild el)) (js_or (dataTime el) (timestampAttr el)) of
        None \<Rightarrow> minutesBefore now idx
      | Some ts \<Rightarrow>
          if ts = [] then minutesBefore now idx
          else if str_includes ts ''T'' \<and> str_includes ts ''Z'' then
            (case parseDate ts of
               None \<Rightarrow> minutesBefore now idx
             | Some d \<Rightarrow> Inr ts)
          else
            (case minutesBefore now idx of
               Inl err \<Rightarrow> minutesBefore now idx
             | Inr isoString \<Rightarrow> Inr isoString))"

text \<open>
  The callback \<^verbatim>\<open>(el, idx) => { ... }\<close> handed to \<^verbatim>\<open>element.evaluate\<close>:
  \<open>Inl\<close> the message of the error it throws, \<open>Inr None\<close> when it returns
  \<^verbatim>\<open>null\<close>. \<open>now\<close> is the clock of this evaluation, read by \<^verbatim>\<open>new Date()\<close>
  and \<^verbatim>\<open>Date.now()\<close>. The function \<^verbatim>\<open>parseTimestamp\<close> declared after the
  \<^verbatim>\<open>return\<close> is called by nothing.
\<close>

definition messageCallback ::
  "(string \<Rightarrow> int option) \<Rightarrow> int \<Rightarrow> element \<Rightarrow> element \<Rightarrow> string + message option" where
  "messageCallback parseDate now el idx =
     (let text = trim (case textChild el of Some t \<Rightarrow> t | None \<Rightarrow> textContent el) in
      if text = [] then Inr None
      else
        (case extractTimestamp parseDate now el idx of
           Inl err \<Rightarrow> Inl err
         | Inr ts \<Rightarrow>
             Inr (Some
               \<lparr> id_f = (case js_or (dataId el) (idAttr el) of
                            Some i \<Rightarrow> if i = [] then SynthId now (objectString idx) else NativeId i
                          | None \<Rightarrow> SynthId now (objectString idx)),
                  text_f = text,
                  sender = (case js_or (map_option trim (senderChild el)) None of
                              Some s \<Rightarrow> s
                            | None \<Rightarrow> if isOwnMessage el then ''me'' else ''other''),
                  timestamp = ts,
                  type_f = (if isOwnMessage el then ''sent'' else ''received''),
                  element_class = className el \<rparr>)))"

text \<open>
  \<^verbatim>\<open>ChatManager.extractMessageData(page, element, index)\<close>: it calls
  \<^verbatim>\<open>element.evaluate(callback, element, index)\<close>, so the callback's \<open>idx\<close> is the
  element and \<open>index\<close> never reaches it. \<open>None\<close> is \<^verbatim>\<open>null\<close>: the callback returned
  it, or the evaluation threw and the handler returned \<^verbatim>\<open>null\<close>.
\<close>

definition extractMessageData ::
  "(string \<Rightarrow> int option) \<Rightarrow> int \<Rightarrow> element \<Rightarrow> nat \<Rightarrow> message option" where
  "extractMessageData parseDate now element index =
     (if evaluateThrows element then None
      else
        (case elementEvaluate (messageCallback parseDate now) element element index of
           Inl err \<Rightarrow> None
         | Inr messageData \<Rightarrow> messageData))"

section \<open>Extraction of the messages of a page\<close>

text \<open>\<^verbatim>\<open>this.messageSelectors\<close>, the candidates in the constructor's order.\<close>

definition messageSelectors :: "string list" where
  \<open>messageSelectors =
     [''.message_container .message'', ''.message_inner'', ''.text-message'',
      ''.message_history_element'', ''.message_receiver'', ''.message_sender'',
      ''.chat_element .message'', ''.message-item'', ''.chat-message'', ''.message-bubble'',
      ''.conversation-message'', ''.msg-item'', ''.message'', ''.chat-msg'', ''.msg'',
      ''.message-row'', ''.chat-bubble'', ''[class*="message"]'', ''[class*="msg"]'',
      ''[class*="chat-"]'', ''.message-content'']\<close>

text \<open>
  A page state answers \<^verbatim>\<open>page.$$(selector)\<close>: the elements matched, in document order, or
  the message of the error the query rejects with.
\<close>

type_synonym page = "string \<Rightarrow> string + element list"

text \<open>
  The inner loop of \<^verbatim>\<open>extractMessages\<close>, from index \<open>i\<close>: every element is evaluated,
  at the instant \<open>now i\<close>, and pushed when the result is not \<^verbatim>\<open>null\<close> and has text.
\<close>

fun pushMessages ::
  "(string \<Rightarrow> int option) \<Rightarrow> (nat \<Rightarrow> int) \<Rightarrow> element list \<Rightarrow> nat \<Rightarrow> message list \<Rightarrow> message list"
where
  "pushMessages parseDate now [] i messages = messages"
| "pushMessages parseDate now (el # els) i messages =
     (case extractMessageData parseDate (now i) el i of
        None \<Rightarrow> pushMessages parseDate now els (Suc i) messages
      | Some message \<Rightarrow>
          if text_f message \<noteq> [] then pushMessages parseDate now els (Suc i) (messages @ [message])
          else pushMessages parseDate now els (Suc i) messages)"

text \<open>
  The loop over the selectors. A query that throws is caught and the next selector is tried, as
  is one that matches nothing; the first selector with a match fills \<open>messages\<close> and the loop
  breaks.
\<close>

fun selectorLoop ::
  "(string \<Rightarrow> int option) \<Rightarrow> (nat \<Rightarrow> int) \<Rightarrow> page \<Rightarrow> string list \<Rightarrow> message list \<Rightarrow> message list"
where
  "selectorLoop parseDate now pg [] messages = messages"
| "selectorLoop parseDate now pg (selector # rest) messages =
     (case pg selector of
        Inl err \<Rightarrow> selectorLoop parseDate now pg rest messages
      | Inr messageElements \<Rightarrow>
          if length messageElements > 0 then pushMessages parseDate now messageElements 0 messages
          else selectorLoop parseDate now pg rest messages)"

text \<open>
  The key of \<^verbatim>\<open>messages.sort((a, b) => new Date(a.timestamp) - new Date(b.timestamp))\<close>.
  Every message that \<^verbatim>\<open>extractMessageData\<close> returns has a valid date (lemma
  \<open>extractMessageData_valid_date\<close>), so the default is never the key of a pushed message.
\<close>

definition timeValue :: "(string \<Rightarrow> int option) \<Rightarrow> message \<Rightarrow> int" where
  "timeValue parseDate m = (case dateOf parseDate (timestamp m) of Some t \<Rightarrow> t | None \<Rightarrow> 0)"

text \<open>
  The test of the duplicate filter:
  \<^verbatim>\<open>m.text === message.text && Math.abs(new Date(m.timestamp) - new Date(message.timestamp)) < 1000\<close>.
  With an invalid date the difference is \<^verbatim>\<open>NaN\<close> and the comparison is false.
\<close>

definition sameMessage :: "(string \<Rightarrow> int option) \<Rightarrow> message \<Rightarrow> message \<Rightarrow> bool" where
  "sameMessage parseDate m message =
     (text_f m = text_f message \<and>
      (case dateOf parseDate (timestamp m) of
         None \<Rightarrow> False
       | Some a \<Rightarrow> (case dateOf parseDate (timestamp message) of
                     None \<Rightarrow> False
                   | Some b \<Rightarrow> \<bar>a - b\<bar> < 1000)))"

text \<open>\<^verbatim>\<open>array.findIndex(p)\<close>, \<open>None\<close> for \<^verbatim>\<open>-1\<close>.\<close>

fun findIndex :: "('a \<Rightarrow> bool) \<Rightarrow> 'a list \<Rightarrow> nat option" where
  "findIndex p [] = None"
| "findIndex p (x # xs) = (if p x then Some 0 else map_option Suc (findIndex p xs))"

text \<open>
  \<^verbatim>\<open>messages.filter((message, index, array) => index === array.findIndex(...))\<close>: the indices
  are visited in order and an element stays when it is the first that the test relates to it.
\<close>

definition uniqueMessages :: "(string \<Rightarrow> int option) \<Rightarrow> message list \<Rightarrow> message list" where
  "uniqueMessages parseDate array =
     map (\<lambda>index. array ! index)
       (filter (\<lambda>index. findIndex (\<lambda>m. sameMessage parseDate m (array ! index)) array = Some index)
          [0..<length array])"

text \<open>The array after the selector loop, and after the stable sort.\<close>

definition pushedMessages ::
  "(string \<Rightarrow> int option) \<Rightarrow> (nat \<Rightarrow> int) \<Rightarrow> page \<Rightarrow> message list" where
  "pushedMessages parseDate now pg = selectorLoop parseDate now pg messageSelectors []"

definition sortedMessages ::
  "(string \<Rightarrow> int option) \<Rightarrow> (nat \<Rightarrow> int) \<Rightarrow> page \<Rightarrow> message list" where
  "sortedMessages parseDate now pg = sort_key (timeValue parseDate) (pushedMessages parseDate now pg)"

text \<open>\<^verbatim>\<open>ChatManager.extractMessages(page)\<close>.\<close>

definition extractMessages ::
  "(string \<Rightarrow> int option) \<Rightarrow> (nat \<Rightarrow> int) \<Rightarrow> page \<Rightarrow> message list" where
  "extractMessages parseDate now pg = uniqueMessages parseDate (sortedMessages parseDate now pg)"

text \<open>
  The loop of \<^verbatim>\<open>ChatManager.getMessageCount(page)\<close>: the largest number of matches seen so
  far; a query that throws is skipped.
\<close>

fun countLoop :: "page \<Rightarrow> string list \<Rightarrow> nat \<Rightarrow> nat" where
  "countLoop pg [] count = count"
| "countLoop pg (selector # rest) count =
     (case pg selector of
        Inl err \<Rightarrow> countLoop pg rest count
      | Inr elements \<Rightarrow>
          countLoop pg rest (if length elements > count then length elements else count))"

definition getMessageCount :: "page \<Rightarrow> nat" where
  "getMessageCount pg = countLoop pg messageSelectors 0"

text \<open>
  The elements that a selector matches on a page state; a query that throws matches none.
\<close>

definition matches :: "page \<Rightarrow> string \<Rightarrow> element list" where
  "matches pg selector = (case pg selector of Inl err \<Rightarrow> [] | Inr els \<Rightarrow> els)"

text \<open>
  The matches of the first selector of a list that matches at least one element, and none when
  no selector does.
\<close>

fun firstMatches :: "page \<Rightarrow> string list \<Rightarrow> element list" where
  "firstMatches pg [] = []"
| "firstMatches pg (selector # rest) =
     (if matches pg selector \<noteq> [] then matches pg selector else firstMatches pg rest)"

section \<open>Scrolling to load the history\<close>

text \<open>
  What one pass of the scroll loop meets: the page state when the messages are counted, and the
  error, if any, that the scroll itself (\<^verbatim>\<open>page.evaluate\<close>, the delay,
  \<^verbatim>\<open>page.$\<close> for the loading indicator) rejects with. The wait for the indicator to
  disappear has its rejection swallowed.
\<close>

record scroll_pass =
  pageState :: page
  scrollError :: "string option"

text \<open>How the loop ends: by its \<^verbatim>\<open>break\<close>, by the cap, or by an exception.\<close>

datatype scroll_end = NoNewMessages | CapReached | ScrollThrew string

definition maxScrollAttempts :: nat where
  "maxScrollAttempts = 10"

text \<open>
  The \<^verbatim>\<open>while\<close> loop of \<^verbatim>\<open>scrollToLoadHistory\<close>; the result is the value of
  \<^verbatim>\<open>scrollAttempt\<close> when the loop is left, which is the number of scrolls completed, and
  how it was left.
\<close>

function scrollLoop :: "(nat \<Rightarrow> scroll_pass) \<Rightarrow> nat \<Rightarrow> nat \<Rightarrow> nat \<times> scroll_end" where
  "scrollLoop passes scrollAttempt previousMessageCount =
     (if scrollAttempt < maxScrollAttempts then
        let currentMessageCount = getMessageCount (pageState (passes scrollAttempt)) in
        if currentMessageCount = previousMessageCount \<and> scrollAttempt > 2 then
          (scrollAttempt, NoNewMessages)
        else
          (case scrollError (passes scrollAttempt) of
             Some err \<Rightarrow> (scrollAttempt, ScrollThrew err)
           | None \<Rightarrow> scrollLoop passes (Suc scrollAttempt) currentMessageCount)
      else (scrollAttempt, CapReached))"
  by pat_completeness auto
termination
  by (relation "measure (\<lambda>(passes, scrollAttempt, previousMessageCount).
        maxScrollAttempts - scrollAttempt)") auto

declare scrollLoop.simps [simp del]

definition scrollToLoadHistory :: "(nat \<Rightarrow> scroll_pass) \<Rightarrow> nat \<times> scroll_end" where
  "scrollToLoadHistory passes = scrollLoop passes 0 0"

text \<open>The count that the pass of attempt \<open>k\<close> reads.\<close>

definition countRead :: "(nat \<Rightarrow> scroll_pass) \<Rightarrow> nat \<Rightarrow> nat" where
  "countRead passes k = getMessageCount (pageState (passes k))"

text \<open>
  The condition of the \<^verbatim>\<open>break\<close> at attempt \<open>k\<close>, for a loop that got there: the
  count read equals the count of the pass before, and \<open>k\<close> is more than 2.
\<close>

definition stopsAt :: "(nat \<Rightarrow> scroll_pass) \<Rightarrow> nat \<Rightarrow> bool" where
  "stopsAt passes k =
     (2 < k \<and> k < maxScrollAttempts \<and> countRead passes k = countRead passes (k - 1))"

text \<open>
  The specification's measure of its stopping rule, "count is unchanged for more than 2
  consecutive attempts": the number of consecutive reads, ending with the read of attempt
  \<open>k\<close>, that each gave the count of the read before.
\<close>

fun spec_unchangedReads :: "(nat \<Rightarrow> nat) \<Rightarrow> nat \<Rightarrow> nat" where
  "spec_unchangedReads counts 0 = 0"
| "spec_unchangedReads counts (Suc k) =
     (if counts (Suc k) = counts k then Suc (spec_unchangedReads counts k) else 0)"

section \<open>Logging in\<close>

text \<open>Decimal digits of a number, as a template literal prints it.\<close>

definition digits :: string where
  "digits = ''0123456789''"

fun decimal :: "nat \<Rightarrow> string" where
  "decimal n =
     (if n < 10 then [digits ! n] else decimal (n div 10) @ [digits ! (n mod 10)])"

declare decimal.simps [simp del]

text \<open>The fields of \<^verbatim>\<open>AuthManager\<close> and its constructor.\<close>

record auth_manager =
  maxRetries :: nat
  retryDelay :: nat

definition AuthManager :: auth_manager where
  "AuthManager = \<lparr> maxRetries = 3, retryDelay = 2000 \<rparr>"

text \<open>
  How \<^verbatim>\<open>Promise.race\<close> in \<^verbatim>\<open>waitForLoginResult\<close> settles: a success indicator
  resolves first, the error selector resolves first (and its continuation throws), or one of the
  waits rejects first, with the message given (a timeout, for one).
\<close>

datatype race_outcome = SuccessIndicator | ErrorIndicator | WaitRejected string

text \<open>
  What one login attempt meets, in the order in which \<^verbatim>\<open>performLogin\<close> asks:
  the navigation, \<^verbatim>\<open>isAlreadyLoggedIn\<close> (the URL, the number of profile elements, whether
  the probe throws), \<^verbatim>\<open>fillLoginForm\<close> (the wait for the form, the two environment
  variables), \<^verbatim>\<open>submitLoginForm\<close> (whether a submit control is found and has a
  bounding box) and \<^verbatim>\<open>waitForLoginResult\<close> (the race, the URL afterwards and the text
  of the error element, if there is one). \<^verbatim>\<open>handleCaptcha\<close> catches every error of its
  own and decides nothing. The queries and key presses between these points are taken to
  succeed.
\<close>

record attempt =
  gotoError :: "string option"
  probeThrows :: bool
  probeUrl :: string
  userElements :: nat
  formWaitError :: "string option"
  userEmail :: "string option"
  userPassword :: "string option"
  submitButton :: bool
  submitBox :: bool
  race :: race_outcome
  currentUrl :: string
  errorElement :: "string option"

text \<open>\<^verbatim>\<open>AuthManager.isAlreadyLoggedIn(page)\<close>.\<close>

definition isAlreadyLoggedIn :: "attempt \<Rightarrow> bool" where
  "isAlreadyLoggedIn a =
     (if probeThrows a then False
      else if str_includes (probeUrl a) ''dashboard'' \<or> str_includes (probeUrl a) ''student/profile''
      then True
      else userElements a > 0)"

text \<open>\<^verbatim>\<open>AuthManager.fillLoginForm(page, stealth)\<close>, by what it can throw.\<close>

definition fillLoginForm :: "attempt \<Rightarrow> string + unit" where
  "fillLoginForm a =
     (case formWaitError a of
        Some err \<Rightarrow> Inl err
      | None \<Rightarrow>
          if \<not> truthy (userEmail a) \<or> \<not> truthy (userPassword a) then
            Inl ''USER_EMAIL and USER_PASSWORD must be set in .env file''
          else Inr ())"

text \<open>
  \<^verbatim>\<open>AuthManager.submitLoginForm(page, stealth)\<close>; \<^verbatim>\<open>humanClick\<close> throws on an
  element with no bounding box.
\<close>

definition submitLoginForm :: "attempt \<Rightarrow> string + unit" where
  "submitLoginForm a =
     (if \<not> submitButton a then Inl ''Could not find submit button''
      else if \<not> submitBox a then Inl ''Element not visible for clicking''
      else Inr ())"

text \<open>
  \<^verbatim>\<open>AuthManager.waitForLoginResult(page)\<close>: the body of its \<^verbatim>\<open>try\<close>, then the
  handler, which replaces every message that contains \<^verbatim>\<open>Timeout\<close>.
\<close>

definition loginResultBody :: "attempt \<Rightarrow> string + unit" where
  "loginResultBody a =
     (case race a of
        WaitRejected err \<Rightarrow> Inl err
      | ErrorIndicator \<Rightarrow> Inl ''Login error detected''
      | SuccessIndicator \<Rightarrow>
          if \<not> str_includes (currentUrl a) ''dashboard'' \<and> \<not> str_includes (currentUrl a) ''student''
          then (case errorElement a of
                  Some errorText \<Rightarrow> Inl (''Login failed: '' @ errorText)
                | None \<Rightarrow> Inl ''Login may have failed - not redirected to dashboard'')
          else Inr ())"

definition waitForLoginResult :: "attempt \<Rightarrow> string + unit" where
  "waitForLoginResult a =
     (case loginResultBody a of
        Inl message \<Rightarrow>
          if str_includes message ''Timeout''
          then Inl ''Login timeout - page did not redirect after form submission''
          else Inl message
      | Inr u \<Rightarrow> Inr u)"

text \<open>
  The body of the \<^verbatim>\<open>try\<close> of one pass of \<^verbatim>\<open>performLogin\<close>: \<open>Inr ()\<close> when it
  reaches a \<^verbatim>\<open>return\<close>, \<open>Inl\<close> the message of the error thrown.
\<close>

definition attemptBody :: "attempt \<Rightarrow> string + unit" where
  "attemptBody a =
     (case gotoError a of
        Some err \<Rightarrow> Inl err
      | None \<Rightarrow>
          if isAlreadyLoggedIn a then Inr ()
          else (case fillLoginForm a of
                  Inl err \<Rightarrow> Inl err
                | Inr u \<Rightarrow> (case submitLoginForm a of
                              Inl err \<Rightarrow> Inl err
                            | Inr v \<Rightarrow> waitForLoginResult a)))"

text \<open>
  A run of \<^verbatim>\<open>performLogin\<close>: how it ends (\<open>Inl\<close> the message of the error it throws),
  the number of attempts made, and the milliseconds of each backoff wait, in order.
\<close>

record login_run =
  outcome :: "string + unit"
  attempts :: nat
  delays :: "nat list"

text \<open>
  The \<^verbatim>\<open>while\<close> loop of \<^verbatim>\<open>performLogin\<close>. \<open>world k\<close> is what attempt \<open>k\<close>
  meets and \<open>rnd k\<close> the random draw of the backoff after it. When the loop condition fails the
  function falls off its end and returns.
\<close>

function loginLoop ::
  "auth_manager \<Rightarrow> (nat \<Rightarrow> attempt) \<Rightarrow> (nat \<Rightarrow> nat) \<Rightarrow> nat \<Rightarrow> nat list \<Rightarrow> login_run" where
  "loginLoop am world rnd attempt waited =
     (if attempt < maxRetries am then
        (case attemptBody (world (attempt + 1)) of
           Inr u \<Rightarrow> \<lparr> outcome = Inr (), attempts = attempt + 1, delays = waited \<rparr>
         | Inl message \<Rightarrow>
             if attempt + 1 = maxRetries am then
               \<lparr> outcome = Inl (''Login failed after '' @ decimal (maxRetries am)
                                 @ '' attempts: '' @ message),
                 attempts = attempt + 1, delays = waited \<rparr>
             else
               let delay = retryDelay am * 2 ^ (attempt + 1 - 1) in
               loginLoop am world rnd (attempt + 1)
                 (waited @ [randomDelay delay (delay + 1000) (rnd (attempt + 1))]))
      else \<lparr> outcome = Inr (), attempts = attempt, delays = waited \<rparr>)"
  by pat_completeness auto
termination
  by (relation "measure (\<lambda>(am, world, rnd, attempt, waited). maxRetries am - attempt)") auto

declare loginLoop.simps [simp del]

definition performLogin :: "(nat \<Rightarrow> attempt) \<Rightarrow> (nat \<Rightarrow> nat) \<Rightarrow> login_run" where
  "performLogin world rnd = loginLoop AuthManager world rnd 0 []"

text \<open>
  \<^verbatim>\<open>InternshalaBot.isLoggedIn()\<close>, from the text of the account-issue element (if one is
  found), whether a dashboard element is found, and whether a query throws.
\<close>

record dashboard_page =
  accountIssue :: "string option"
  dashboardElement :: bool
  queryThrows :: bool

definition isLoggedIn :: "dashboard_page \<Rightarrow> bool" where
  "isLoggedIn d =
     (if queryThrows d then False
      else if (case accountIssue d of
                 None \<Rightarrow> False
               | Some errorText \<Rightarrow> errorText \<noteq> [] \<and> str_includes errorText ''put on hold'')
      then False
      else dashboardElement d)"

text \<open>
  \<^verbatim>\<open>InternshalaBot.login()\<close>, up to the saving of the cookies: \<open>cookies\<close> says whether
  stored cookies were loaded, \<open>d\<close> is the dashboard as fetched with them. A run that ends at the
  cookie check makes no attempt.
\<close>

definition login :: "bool \<Rightarrow> dashboard_page \<Rightarrow> (nat \<Rightarrow> attempt) \<Rightarrow> (nat \<Rightarrow> nat) \<Rightarrow> login_run" where
  "login cookies d world rnd =
     (if cookies \<and> isLoggedIn d then \<lparr> outcome = Inr (), attempts = 0, delays = [] \<rparr>
      else performLogin world rnd)"

section \<open>Typing like a human\<close>

text \<open>
  The focused element while \<^verbatim>\<open>humanType\<close> runs: its content, with the caret at the end;
  the characters handed to \<^verbatim>\<open>page.keyboard.type\<close> so far; the number of
  \<^verbatim>\<open>Backspace\<close> presses; the milliseconds waited; and the number of draws taken from the
  random source.
\<close>

record typing =
  content :: string
  typed :: string
  backspaces :: nat
  elapsed :: nat
  draws :: nat

text \<open>\<^verbatim>\<open>await this.randomDelay(lo, hi)\<close>: one draw, and the wait.\<close>

definition waitRandom :: "(nat \<Rightarrow> nat) \<Rightarrow> nat \<Rightarrow> nat \<Rightarrow> typing \<Rightarrow> typing" where
  "waitRandom rnd lo hi st =
     st\<lparr> elapsed := elapsed st + randomDelay lo hi (rnd (draws st)), draws := draws st + 1 \<rparr>"

text \<open>\<^verbatim>\<open>page.keyboard.press('Backspace')\<close> deletes the character before the caret.\<close>

definition pressBackspace :: "typing \<Rightarrow> typing" where
  "pressBackspace st = st\<lparr> content := butlast (content st), backspaces := backspaces st + 1 \<rparr>"

text \<open>\<^verbatim>\<open>page.keyboard.type(char)\<close> inserts the character at the caret.\<close>

definition keyboardType :: "char \<Rightarrow> typing \<Rightarrow> typing" where
  "keyboardType char st = st\<lparr> content := content st @ [char], typed := typed st @ [char] \<rparr>"

text \<open>
  The \<^verbatim>\<open>for\<close> loop of \<^verbatim>\<open>StealthManager.humanType\<close> from index \<open>i\<close>, over the
  characters still to type. Each pass draws the typing delay, draws the chance of a "mistake"
  (and on one, when \<open>i > 0\<close>, presses \<^verbatim>\<open>Backspace\<close> and waits), types the character,
  waits, and draws the chance of a longer pause.
\<close>

fun typeLoop :: "(nat \<Rightarrow> nat) \<Rightarrow> string \<Rightarrow> nat \<Rightarrow> typing \<Rightarrow> typing" where
  "typeLoop rnd [] i st = st"
| "typeLoop rnd (char # rest) i st =
     (let typingDelay = rnd (draws st) mod 150 + 50;
          st1 = st\<lparr> draws := draws st + 1 \<rparr>;
          mistake = (rnd (draws st1) mod 100 < 2 \<and> i > 0);
          st2 = st1\<lparr> draws := draws st1 + 1 \<rparr>;
          st3 = (if mistake then waitRandom rnd 100 200 (pressBackspace st2) else st2);
          st4 = waitRandom rnd typingDelay (typingDelay + 50) (keyboardType char st3);
          pause = (rnd (draws st4) mod 100 < 10);
          st5 = st4\<lparr> draws := draws st4 + 1 \<rparr>;
          st6 = (if pause then waitRandom rnd 300 800 st5 else st5)
      in typeLoop rnd rest (Suc i) st6)"

text \<open>
  \<^verbatim>\<open>StealthManager.humanType(page, element, text)\<close> on an element that holds \<open>before\<close>
  when it is focused.
\<close>

definition humanType :: "(nat \<Rightarrow> nat) \<Rightarrow> string \<Rightarrow> string \<Rightarrow> typing" where
  "humanType rnd before text =
     typeLoop rnd text 0
       (waitRandom rnd 100 300
          \<lparr> content = before, typed = [], backspaces = 0, elapsed = 0, draws = 0 \<rparr>)"

section \<open>Listening for new messages\<close>

text \<open>
  The identifiers that the body of \<^verbatim>\<open>startLiveListener(page, conversationId, storage,
  isListeningCallback)\<close> can resolve: its parameters and the bindings of its module, which
  imports \<^verbatim>\<open>logger\<close> and declares \<^verbatim>\<open>ChatManager\<close>.
\<close>

definition listenerScope :: "string list" where
  "listenerScope =
     [''page'', ''conversationId'', ''storage'', ''isListeningCallback'', ''logger'',
      ''ChatManager'']"

text \<open>
  \<^verbatim>\<open>await stealth.randomDelay(lo, hi)\<close> evaluated in a scope: module code is strict, so
  the identifier \<^verbatim>\<open>stealth\<close> throws a \<^verbatim>\<open>ReferenceError\<close> where nothing binds it.
\<close>

definition stealthDelay :: "string list \<Rightarrow> nat \<Rightarrow> nat \<Rightarrow> nat \<Rightarrow> string + nat" where
  "stealthDelay scope lo hi r =
     (if List.member scope ''stealth'' then Inr (randomDelay lo hi r)
      else Inl ''stealth is not defined'')"

text \<open>
  What one polling cycle meets: the answer to \<^verbatim>\<open>page.$$('[data-new-message="true"]')\<close>,
  the clock when the \<open>j\<close>-th element is evaluated, and the errors, if any, with which
  \<^verbatim>\<open>storage.appendMessage\<close> and the removal of the marker reject for the \<open>j\<close>-th element.
\<close>

record cycle =
  newMessages :: "string + element list"
  clock :: "nat \<Rightarrow> int"
  appendError :: "nat \<Rightarrow> string option"
  unmarkError :: "nat \<Rightarrow> string option"

text \<open>
  The listener's effects: the messages handed to \<^verbatim>\<open>storage.appendMessage\<close>, the errors
  logged by the inner handler, the waits completed, and the number of cycles begun.
\<close>

record listener =
  appended :: "message list"
  logged :: "string list"
  waits :: "nat list"
  cycles :: nat

text \<open>
  The \<^verbatim>\<open>for\<close> loop over the new elements, from the \<open>j\<close>-th: \<open>Some\<close> the message of
  the error that leaves it, with the messages appended until then.
\<close>

fun processNew ::
  "(string \<Rightarrow> int option) \<Rightarrow> string option \<Rightarrow> cycle \<Rightarrow> element list \<Rightarrow> nat \<Rightarrow> message list
     \<Rightarrow> string option \<times> message list"
where
  "processNew parseDate conversationId c [] j store = (None, store)"
| "processNew parseDate conversationId c (el # els) j store =
     (case extractMessageData parseDate (clock c j) el 0 of
        None \<Rightarrow> processNew parseDate conversationId c els (Suc j) store
      | Some messageData \<Rightarrow>
          if sender messageData \<noteq> ''me'' then
            (if truthy conversationId then
               (case appendError c j of
                  Some err \<Rightarrow> (Some err, store)
                | None \<Rightarrow>
                    (case unmarkError c j of
                       Some err \<Rightarrow> (Some err, store @ [messageData])
                     | None \<Rightarrow>
                         processNew parseDate conversationId c els (Suc j) (store @ [messageData])))
             else
               (case unmarkError c j of
                  Some err \<Rightarrow> (Some err, store)
                | None \<Rightarrow> processNew parseDate conversationId c els (Suc j) store))
          else processNew parseDate conversationId c els (Suc j) store)"

text \<open>
  The statements of the inner \<^verbatim>\<open>try\<close> before its delay: the query, then the loop.
\<close>

definition pollCycle ::
  "(string \<Rightarrow> int option) \<Rightarrow> string option \<Rightarrow> cycle \<Rightarrow> message list
     \<Rightarrow> string option \<times> message list" where
  "pollCycle parseDate conversationId c store =
     (case newMessages c of
        Inl err \<Rightarrow> (Some err, store)
      | Inr els \<Rightarrow> processNew parseDate conversationId c els 0 store)"

text \<open>
  The \<^verbatim>\<open>while (isListeningCallback())\<close> loop, from cycle \<open>k\<close>. \<open>isListening k\<close> is the
  answer of the callback before cycle \<open>k\<close>, \<open>world k\<close> what the cycle meets, \<open>rnd k\<close> the draw
  of its delay. The result pairs the error that leaves the loop (\<open>None\<close> when the callback
  ended it) with the effects; a loop that never ends has no result.
\<close>

partial_function (option) listenLoop ::
  "string list \<Rightarrow> (string \<Rightarrow> int option) \<Rightarrow> string option \<Rightarrow> (nat \<Rightarrow> bool) \<Rightarrow> (nat \<Rightarrow> cycle)
     \<Rightarrow> (nat \<Rightarrow> nat) \<Rightarrow> nat \<Rightarrow> listener \<Rightarrow> (string option \<times> listener) option"
where
  "listenLoop scope parseDate conversationId isListening world rnd k st =
     (if isListening k then
        (case pollCycle parseDate conversationId (world k) (appended st) of
           (thrown, store) \<Rightarrow>
             let st1 = st\<lparr> appended := store, cycles := k + 1 \<rparr> in
             (case (case thrown of
                      Some err \<Rightarrow> Inl err
                    | None \<Rightarrow> stealthDelay scope 1000 2000 (rnd k)) of
                Inr d \<Rightarrow>
                  listenLoop scope parseDate conversationId isListening world rnd (k + 1)
                    (st1\<lparr> waits := waits st1 @ [d] \<rparr>)
              | Inl error \<Rightarrow>
                  let st2 = st1\<lparr> logged := logged st1 @ [error] \<rparr> in
                  (case stealthDelay scope 5000 10000 (rnd k) of
                     Inr d \<Rightarrow>
                       listenLoop scope parseDate conversationId isListening world rnd (k + 1)
                         (st2\<lparr> waits := waits st2 @ [d] \<rparr>)
                   | Inl error' \<Rightarrow> Some (Some error', st2))))
      else Some (None, st))"

text \<open>
  \<^verbatim>\<open>ChatManager.startLiveListener\<close>: the observer is installed (\<open>observerError\<close> is the
  error of that \<^verbatim>\<open>page.evaluate\<close>, if it rejects), then the loop runs; the outer handler
  logs and rethrows what leaves it.
\<close>

definition startLiveListener ::
  "(string \<Rightarrow> int option) \<Rightarrow> string option \<Rightarrow> string option \<Rightarrow> (nat \<Rightarrow> bool) \<Rightarrow> (nat \<Rightarrow> cycle)
     \<Rightarrow> (nat \<Rightarrow> nat) \<Rightarrow> (string option \<times> listener) option" where
  "startLiveListener parseDate conversationId observerError isListening world rnd =
     (case observerError of
        Some err \<Rightarrow> Some (Some err, \<lparr> appended = [], logged = [], waits = [], cycles = 0 \<rparr>)
      | None \<Rightarrow>
          listenLoop listenerScope parseDate conversationId isListening world rnd 0
            \<lparr> appended = [], logged = [], waits = [], cycles = 0 \<rparr>)"

section \<open>Concrete elements, pages and runs\<close>




text \<open>A date parser that knows four instants of one day and nothing else.\<close>

definition isoParser :: "string \<Rightarrow> int option" where
  "isoParser s =
     (if s = ''2024-01-01T00:00:00.000Z'' then Some 1704067200000
      else if s = ''2024-01-01T00:00:00.600Z'' then Some 1704067200600
      else if s = ''2024-01-01T00:00:01.200Z'' then Some 1704067201200
      else if s = ''2024-01-01T00:00:05.000Z'' then Some 1704067205000
      else None)"

text \<open>
  A received message with the text \<^verbatim>\<open>hello\<close> and nothing else,
  \<^verbatim>\<open><div class="message">hello</div>\<close>; an element of class \<open>c\<close> with the text
  \<open>t\<close> and the \<^verbatim>\<open>data-time\<close> attribute \<open>ts\<close>, and the \<^verbatim>\<open>hello\<close> of class
  \<^verbatim>\<open>message\<close> among these; the user's own with a time and a sender name,
  \<^verbatim>\<open><div class="message sent" data-time="2024-01-01T00:00:00.000Z"><span
  class="sender-name">Alice</span> hello</div>\<close>; and one with a relative time,
  \<^verbatim>\<open><div class="message">hello <span class="time">2 hours ago</span></div>\<close>.
\<close>

definition plainElement :: element where
  "plainElement = \<lparr> classList = [''message''], ancestorClasses = [], className = ''message'',
     objectString = ''[object HTMLDivElement]'',
     textChild = None, textContent = ''hello'', timeChild = None, dataTime = None,
     timestampAttr = None, senderChild = None, dataId = None, idAttr = None,
     evaluateThrows = False \<rparr>"

definition stampedAs :: "string \<Rightarrow> string \<Rightarrow> string \<Rightarrow> element" where
  "stampedAs c t ts =
     plainElement\<lparr> classList := [c], className := c, textContent := t, dataTime := Some ts \<rparr>"

definition stamped :: "string \<Rightarrow> element" where
  "stamped ts = stampedAs ''message'' ''hello'' ts"

definition namedOwnElement :: element where
  "namedOwnElement = (stamped ''2024-01-01T00:00:00.000Z'')\<lparr> classList := [''message'', ''sent''],
     className := ''message sent'', textContent := ''Alice hello'', senderChild := Some ''Alice'' \<rparr>"

definition relativeElement :: element where
  "relativeElement = plainElement\<lparr> textContent := ''hello 2 hours ago'',
     timeChild := Some ''2 hours ago'' \<rparr>"

text \<open>
  \<open>textAt c t ts\<close> is the message extracted at clock 0 from the stamped element of class
  \<open>c\<close> whose text is \<open>t\<close>, and \<open>helloAt ts\<close> the one from the stamped \<^verbatim>\<open>hello\<close>.
\<close>

definition textAt :: "string \<Rightarrow> string \<Rightarrow> string \<Rightarrow> message" where
  "textAt c t ts = \<lparr> id_f = SynthId 0 ''[object HTMLDivElement]'', text_f = t, sender = ''other'',
       timestamp = ts, type_f = ''received'', element_class = c \<rparr>"

definition helloAt :: "string \<Rightarrow> message" where
  "helloAt ts = textAt ''message'' ''hello'' ts"

text \<open>
  A page on which the third candidate, \<^verbatim>\<open>.text-message\<close>, matches two stamped
  elements and a later, wider candidate matches the same two and a third; the query of the
  second candidate throws.
\<close>

definition overlapPage :: page where
  \<open>overlapPage selector =
     (if selector = ''.text-message'' then
        Inr [stampedAs ''text-message'' ''hello'' ''2024-01-01T00:00:00.600Z'',
             stampedAs ''text-message'' ''second'' ''2024-01-01T00:00:00.000Z'']
      else if selector = ''[class*="message"]'' then
        Inr [stampedAs ''text-message'' ''hello'' ''2024-01-01T00:00:00.600Z'',
             stampedAs ''text-message'' ''second'' ''2024-01-01T00:00:00.000Z'',
             stampedAs ''message-extra'' ''third'' ''2024-01-01T00:00:01.200Z'']
      else if selector = ''.message_inner'' then Inl ''Execution context was destroyed''
      else Inr [])\<close>

text \<open>
  A page whose \<^verbatim>\<open>.message\<close> elements all read \<^verbatim>\<open>hello\<close>, stamped 0, 600, 1200
  and 5000 milliseconds after midnight, and one with two of them, the later first.
\<close>

definition burstPage :: page where
  "burstPage selector =
     (if selector = ''.message'' then
        Inr [stamped ''2024-01-01T00:00:00.000Z'', stamped ''2024-01-01T00:00:00.600Z'',
             stamped ''2024-01-01T00:00:01.200Z'', stamped ''2024-01-01T00:00:05.000Z'']
      else Inr [])"

definition laterFirstPage :: page where
  "laterFirstPage selector =
     (if selector = ''.message'' then
        Inr [stamped ''2024-01-01T00:00:00.600Z'', stamped ''2024-01-01T00:00:00.000Z'']
      else Inr [])"

text \<open>
  A page with \<open>n\<close> elements of class \<^verbatim>\<open>message\<close>, and a history that grows by one
  message with each of the first three scrolls and then no more: the counts read are 1, 2, 3, 4,
  4, 4 and so on.
\<close>

definition pageWith :: "nat \<Rightarrow> page" where
  "pageWith n selector = (if selector = ''.message'' then Inr (replicate n plainElement) else Inr [])"

definition growingPasses :: "nat \<Rightarrow> scroll_pass" where
  "growingPasses k = \<lparr> pageState = pageWith (min (k + 1) 4), scrollError = None \<rparr>"

text \<open>
  A login attempt on which everything goes well; one on which the error element appears and
  reads that the account is on hold; a world whose first two attempts are rejected by the
  network and whose third goes well; and a dashboard that shows the account-on-hold notice.
\<close>

definition goodAttempt :: attempt where
  "goodAttempt = \<lparr> gotoError = None, probeThrows = False,
     probeUrl = ''https://internshala.com/login/student'', userElements = 0,
     formWaitError = None, userEmail = Some ''user@example.com'', userPassword = Some ''secret'',
     submitButton = True, submitBox = True, race = SuccessIndicator,
     currentUrl = ''https://internshala.com/student/dashboard'', errorElement = None \<rparr>"

definition holdAttempt :: attempt where
  "holdAttempt = goodAttempt\<lparr> race := ErrorIndicator,
     currentUrl := ''https://internshala.com/login/student'',
     errorElement := Some ''Your account has been put on hold'' \<rparr>"

definition twoFailures :: "nat \<Rightarrow> attempt" where
  "twoFailures k = (if k = 3 then goodAttempt else goodAttempt\<lparr> race := WaitRejected ''net::ERR_FAILED'' \<rparr>)"

definition holdDashboard :: dashboard_page where
  "holdDashboard = \<lparr> accountIssue = Some ''Your account has been put on hold'',
     dashboardElement = False, queryThrows = False \<rparr>"

text \<open>A polling cycle in which the page shows no new message and nothing fails.\<close>

definition quietCycle :: cycle where
  "quietCycle = \<lparr> newMessages = Inr [], clock = (\<lambda>j. 0), appendError = (\<lambda>j. None),
     unmarkError = (\<lambda>j. None) \<rparr>"


section \<open>Properties of the classification of one element\<close>

lemmas fixture_simps = plainElement_def stampedAs_def stamped_def namedOwnElement_def
  relativeElement_def
lemmas extract_simps = extractMessageData_def elementEvaluate_def messageCallback_def
  extractTimestamp_def minutesBefore_def isOwnMessage_def hasOwnMarker_def ownMarkers_def trim_def
  is_space_def js_or_def truthy_def Let_def


lemma isOwnMessage_iff:
  "isOwnMessage el \<longleftrightarrow> (\<exists>cs \<in> set (classList el # ancestorClasses el). \<exists>c \<in> set ownMarkers. c \<in> set cs)"
  by (auto simp: isOwnMessage_def hasOwnMarker_def list_ex_iff)




lemma extractTimestamp_Inr:
  "extractTimestamp P now el idx = Inr ts \<longleftrightarrow>
     js_or (map_option trim (timeChild el)) (js_or (dataTime el) (timestampAttr el)) = Some ts
     \<and> str_includes ts ''T'' \<and> str_includes ts ''Z'' \<and> (\<exists>d. P ts = Some d)"
  by (auto simp: extractTimestamp_def minutesBefore_def split: option.splits)

lemma extractMessageData_Some:
  "extractMessageData P now el index = Some m \<longleftrightarrow>
     \<not> evaluateThrows el
     \<and> trim (case textChild el of Some t \<Rightarrow> t | None \<Rightarrow> textContent el) \<noteq> []
     \<and> (\<exists>ts. extractTimestamp P now el el = Inr ts \<and>
           m = \<lparr> id_f = (case js_or (dataId el) (idAttr el) of
                            Some i \<Rightarrow> if i = [] then SynthId now (objectString el) else NativeId i
                          | None \<Rightarrow> SynthId now (objectString el)),
                  text_f = trim (case textChild el of Some t \<Rightarrow> t | None \<Rightarrow> textContent el),
                  sender = (case js_or (map_option trim (senderChild el)) None of
                              Some s \<Rightarrow> s
                            | None \<Rightarrow> if isOwnMessage el then ''me'' else ''other''),
                  timestamp = ts,
                  type_f = (if isOwnMessage el then ''sent'' else ''received''),
                  element_class = className el \<rparr>)"
  by (auto simp: extractMessageData_def elementEvaluate_def messageCallback_def Let_def
      split: sum.splits)

lemma stamped_text_message:
  "isoParser ts = Some d \<Longrightarrow> str_includes ts ''T'' \<Longrightarrow> str_includes ts ''Z'' \<Longrightarrow> trim t \<noteq> [] \<Longrightarrow>
     c \<notin> set ownMarkers \<Longrightarrow>
     extractMessageData isoParser 0 (stampedAs c t ts) index = Some (textAt c (trim t) ts)"
  by (subst extractMessageData_Some)
     (auto simp: extractTimestamp_Inr stampedAs_def plainElement_def textAt_def
        js_or_def truthy_def isOwnMessage_def hasOwnMarker_def list_ex_iff)

lemma stamped_message:
  assumes "isoParser ts = Some d" "str_includes ts ''T''" "str_includes ts ''Z''"
  shows "extractMessageData isoParser 0 (stamped ts) index = Some (helloAt ts)"
proof -
  have t: "trim ''hello'' = ''hello''" by (simp add: trim_def is_space_def)
  have c: "''message'' \<notin> set ownMarkers" by (simp add: ownMarkers_def)
  from stamped_text_message[OF assms _ c, of "''hello''" index] t show ?thesis
    by (simp add: helloAt_def stamped_def)
qed

lemma same_text:
  "sameMessage isoParser (textAt c a s) (textAt c' b t) =
     (a = b \<and> (case isoParser s of
        None \<Rightarrow> False
      | Some x \<Rightarrow> (case isoParser t of None \<Rightarrow> False | Some y \<Rightarrow> \<bar>x - y\<bar> < 1000)))"
  by (simp add: sameMessage_def textAt_def dateOf_def split: option.splits)

lemma time_text:
  "timeValue isoParser (textAt c a s) = (case isoParser s of Some t \<Rightarrow> t | None \<Rightarrow> 0)"
  by (simp add: timeValue_def textAt_def dateOf_def split: option.splits)

lemma iso_values:
  "isoParser ''2024-01-01T00:00:00.000Z'' = Some 1704067200000"
  "isoParser ''2024-01-01T00:00:00.600Z'' = Some 1704067200600"
  "isoParser ''2024-01-01T00:00:01.200Z'' = Some 1704067201200"
  "isoParser ''2024-01-01T00:00:05.000Z'' = Some 1704067205000"
  by (simp_all add: isoParser_def)

text \<open>
  Claim C8, as the code has it. For every element that yields a message, \<open>isOwnMessage\<close> holds
  exactly when the element or one of its ancestors carries one of the four marker classes; the
  text of the element plays no part in it. The type is \<^verbatim>\<open>sent\<close> when \<open>isOwnMessage\<close>
  holds and \<^verbatim>\<open>received\<close> otherwise. The sender is the trimmed text of the sender-name
  element when there is one and it is not empty, and only otherwise \<^verbatim>\<open>me\<close> or
  \<^verbatim>\<open>other\<close> by \<open>isOwnMessage\<close>.
\<close>

theorem own_message_classification:
  assumes "extractMessageData parseDate now el idx = Some m"
  shows "(isOwnMessage el \<longleftrightarrow>
            (\<exists>cs \<in> set (classList el # ancestorClasses el). \<exists>c \<in> set ownMarkers. c \<in> set cs))
       \<and> isOwnMessage (el\<lparr> textContent := t, textChild := tc \<rparr>) = isOwnMessage el
       \<and> type_f m = (if isOwnMessage el then ''sent'' else ''received'')
       \<and> sender m =
           (case senderChild el of
              None \<Rightarrow> if isOwnMessage el then ''me'' else ''other''
            | Some s \<Rightarrow> if trim s \<noteq> [] then trim s
                        else if isOwnMessage el then ''me'' else ''other'')"
proof -
  have a: "isOwnMessage (el\<lparr> textContent := t, textChild := tc \<rparr>) = isOwnMessage el"
    by (simp add: isOwnMessage_def)
  from assms have b: "type_f m = (if isOwnMessage el then ''sent'' else ''received'')"
    by (auto simp: extractMessageData_Some)
  from assms have c: "sender m =
           (case senderChild el of
              None \<Rightarrow> if isOwnMessage el then ''me'' else ''other''
            | Some s \<Rightarrow> if trim s \<noteq> [] then trim s
                        else if isOwnMessage el then ''me'' else ''other'')"
    by (auto simp: extractMessageData_Some js_or_def truthy_def split: option.splits)
  from isOwnMessage_iff a b c show ?thesis by blast
qed

lemma named_own_message:
  "extractMessageData isoParser 0 namedOwnElement 0 =
     Some \<lparr> id_f = SynthId 0 ''[object HTMLDivElement]'', text_f = ''Alice hello'',
            sender = ''Alice'', timestamp = ''2024-01-01T00:00:00.000Z'', type_f = ''sent'',
            element_class = ''message sent'' \<rparr>"
  by (subst extractMessageData_Some)
     (auto simp: extractTimestamp_Inr iso_values fixture_simps js_or_def truthy_def trim_def
        is_space_def isOwnMessage_def hasOwnMarker_def ownMarkers_def)

text \<open>
  The theorem at an element of class \<^verbatim>\<open>sent\<close>, stamped with an ISO instant, whose
  sender-name element reads \<^verbatim>\<open>Alice\<close>.
\<close>

theorem own_message_classification_witness:
  "extractMessageData isoParser 0 namedOwnElement 0 \<noteq> None
   \<and> isOwnMessage namedOwnElement
   \<and> map_option type_f (extractMessageData isoParser 0 namedOwnElement 0) = Some ''sent''
   \<and> map_option sender (extractMessageData isoParser 0 namedOwnElement 0) = Some ''Alice''"
proof -
  obtain m where h: "extractMessageData isoParser 0 namedOwnElement 0 = Some m"
    by (simp add: named_own_message)
  have own: "isOwnMessage namedOwnElement"
    by (simp add: fixture_simps isOwnMessage_def hasOwnMarker_def ownMarkers_def)
  have tr: "trim ''Alice'' = ''Alice''" by (simp add: trim_def is_space_def)
  from own_message_classification[OF h] own tr
  have "type_f m = ''sent'' \<and> sender m = ''Alice''"
    by (simp add: fixture_simps)
  with h own show ?thesis by simp
qed

text \<open>
  Claim C8 as stated fails: that element is the user's own by its marker class, a message is
  extracted from it, and its sender is the display name, not \<^verbatim>\<open>me\<close>.
\<close>

theorem sender_not_me_counterexample:
  "isOwnMessage namedOwnElement
   \<and> map_option sender (extractMessageData isoParser 0 namedOwnElement 0) = Some ''Alice''
   \<and> ''Alice'' \<noteq> ''me''"
  by (simp add: named_own_message)
     (simp add: fixture_simps isOwnMessage_def hasOwnMarker_def ownMarkers_def)





section \<open>Properties of a full extraction\<close>

lemma pushMessages_append:
  "pushMessages P now els i acc = acc @ pushMessages P now els i []"
proof (induction els arbitrary: i acc)
  case Nil
  then show ?case by simp
next
  case (Cons el els)
  show ?case
    using Cons.IH[of "Suc i" acc] Cons.IH[of "Suc i" "acc @ [x]" for x] Cons.IH[of "Suc i" "[x]" for x]
    by (simp split: option.splits)
qed

lemma pushMessages_from:
  "m \<in> set (pushMessages P now els i acc) \<Longrightarrow>
     m \<in> set acc \<or> (\<exists>j < length els. extractMessageData P (now (i + j)) (els ! j) (i + j) = Some m)"
proof (induction els arbitrary: i acc)
  case Nil
  then show ?case by simp
next
  case (Cons el els)
  from Cons.prems obtain acc' where
    step: "m \<in> set (pushMessages P now els (Suc i) acc')"
    and acc': "acc' = acc \<or> acc' = acc @ [the (extractMessageData P (now i) el i)] \<and> extractMessageData P (now i) el i \<noteq> None"
    by (auto split: option.splits if_splits)
  from Cons.IH[OF step] have
    "m \<in> set acc' \<or> (\<exists>j < length els. extractMessageData P (now (Suc i + j)) (els ! j) (Suc i + j) = Some m)" .
  then show ?case
  proof
    assume "m \<in> set acc'"
    with acc' have "m \<in> set acc \<or> extractMessageData P (now i) el i = Some m" by auto
    then show ?thesis by (auto intro: exI[of _ 0])
  next
    assume "\<exists>j < length els. extractMessageData P (now (Suc i + j)) (els ! j) (Suc i + j) = Some m"
    then obtain j where "j < length els"
      "extractMessageData P (now (Suc i + j)) (els ! j) (Suc i + j) = Some m" by blast
    then have "Suc j < length (el # els) \<and>
      extractMessageData P (now (i + Suc j)) ((el # els) ! Suc j) (i + Suc j) = Some m" by simp
    then show ?thesis by blast
  qed
qed

lemma length_pushMessages:
  "length (pushMessages P now els i acc) \<le> length acc + length els"
proof (induction els arbitrary: i acc)
  case Nil
  then show ?case by simp
next
  case (Cons el els)
  show ?case
    using Cons.IH[of "Suc i" acc] Cons.IH[of "Suc i" "acc @ [x]" for x]
    by (auto split: option.splits simp: le_Suc_eq)
qed

lemma selectorLoop_first_match:
  assumes "n < length sels" "matches pg (sels ! n) \<noteq> []" "\<forall>k < n. matches pg (sels ! k) = []"
  shows "selectorLoop P now pg sels acc = pushMessages P now (matches pg (sels ! n)) 0 acc"
  using assms
proof (induction sels arbitrary: n)
  case Nil
  then show ?case by simp
next
  case (Cons s rest)
  show ?case
  proof (cases n)
    case 0
    with Cons.prems show ?thesis by (auto simp: matches_def split: sum.splits)
  next
    case (Suc n')
    with Cons.prems have empty: "matches pg s = []" by auto
    from Suc Cons.prems have "n' < length rest" "matches pg (rest ! n') \<noteq> []"
      "\<forall>k < n'. matches pg (rest ! k) = []" by auto
    from Cons.IH[OF this] empty Suc show ?thesis
      by (auto simp: matches_def split: sum.splits)
  qed
qed

lemma selectorLoop_firstMatches:
  "selectorLoop P now pg sels acc = pushMessages P now (firstMatches pg sels) 0 acc"
  by (induction sels) (auto simp: matches_def split: sum.splits)

lemma set_uniqueMessages: "set (uniqueMessages P xs) \<subseteq> set xs"
  by (auto simp: uniqueMessages_def)

lemma length_uniqueMessages: "length (uniqueMessages P xs) \<le> length xs"
proof -
  have "length (uniqueMessages P xs) \<le> length [0..<length xs]"
    unfolding uniqueMessages_def length_map by (rule length_filter_le)
  then show ?thesis by simp
qed

lemma countLoop_Max:
  "countLoop pg sels c = Max (insert c ((\<lambda>selector. length (matches pg selector)) ` set sels))"
proof (induction sels arbitrary: c)
  case Nil
  then show ?case by simp
next
  case (Cons s rest)
  let ?f = "\<lambda>selector. length (matches pg selector)"
  have fin: "finite (?f ` set rest)" by simp
  have "countLoop pg (s # rest) c = countLoop pg rest (max c (?f s))"
    by (auto simp: matches_def max_def split: sum.splits)
  also have "\<dots> = Max (insert (max c (?f s)) (?f ` set rest))" by (rule Cons.IH)
  also have "\<dots> = Max (insert c (insert (?f s) (?f ` set rest)))"
    using fin by (cases "?f ` set rest = {}") (simp_all add: max.assoc)
  finally show ?case by simp
qed

lemma firstMatches_le_count:
  "length (firstMatches pg sels) \<le> countLoop pg sels c"
proof (induction sels arbitrary: c)
  case Nil
  then show ?case by simp
next
  case (Cons s rest)
  have mono: "\<And>c. c \<le> countLoop pg rest c"
    by (simp add: countLoop_Max)
  show ?case
  proof (cases "matches pg s = []")
    case True
    with Cons.IH show ?thesis by (auto simp: matches_def split: sum.splits)
  next
    case False
    then obtain els where els: "pg s = Inr els" "els \<noteq> []"
      by (auto simp: matches_def split: sum.splits)
    have "length els \<le> (if length els > c then length els else c)" by simp
    also have "\<dots> \<le> countLoop pg rest (if length els > c then length els else c)" by (rule mono)
    finally show ?thesis using els by (simp add: matches_def)
  qed
qed

text \<open>
  Claim C5. When the \<open>n\<close>-th candidate is the first that matches an element (every earlier one
  matches nothing, or its query throws), the messages pushed are those of the \<open>n\<close>-th
  candidate's matches and of no other: the result is the sorted, deduplicated list of exactly
  these, every message of the result is the classification of one of these elements, and the
  result is the same on every page that answers the first \<open>n\<close> candidates and the \<open>n\<close>-th
  alike, whatever the later candidates match.
\<close>

theorem first_matching_selector_wins:
  assumes "n < length messageSelectors"
    and "matches pg (messageSelectors ! n) \<noteq> []"
    and "\<forall>k < n. matches pg (messageSelectors ! k) = []"
  shows "pushedMessages parseDate now pg
           = pushMessages parseDate now (matches pg (messageSelectors ! n)) 0 []
       \<and> extractMessages parseDate now pg
           = uniqueMessages parseDate (sort_key (timeValue parseDate)
               (pushMessages parseDate now (matches pg (messageSelectors ! n)) 0 []))
       \<and> (\<forall>m \<in> set (extractMessages parseDate now pg).
             \<exists>i < length (matches pg (messageSelectors ! n)).
               extractMessageData parseDate (now i) (matches pg (messageSelectors ! n) ! i) i = Some m)
       \<and> (\<forall>pg'. (\<forall>k \<le> n. pg' (messageSelectors ! k) = pg (messageSelectors ! k))
             \<longrightarrow> extractMessages parseDate now pg' = extractMessages parseDate now pg)"
proof -
  let ?els = "matches pg (messageSelectors ! n)"
  have pushed: "pushedMessages parseDate now pg = pushMessages parseDate now ?els 0 []"
    unfolding pushedMessages_def by (rule selectorLoop_first_match[OF assms])
  then have extracted: "extractMessages parseDate now pg
           = uniqueMessages parseDate (sort_key (timeValue parseDate)
               (pushMessages parseDate now ?els 0 []))"
    by (simp add: extractMessages_def sortedMessages_def)
  have "\<exists>i < length ?els. extractMessageData parseDate (now i) (?els ! i) i = Some m"
    if "m \<in> set (extractMessages parseDate now pg)" for m
  proof -
    from that extracted set_uniqueMessages
    have "m \<in> set (pushMessages parseDate now ?els 0 [])" by fastforce
    from pushMessages_from[OF this] show ?thesis by simp
  qed
  then have origin: "\<forall>m \<in> set (extractMessages parseDate now pg).
             \<exists>i < length ?els. extractMessageData parseDate (now i) (?els ! i) i = Some m"
    by blast
  have "extractMessages parseDate now pg' = extractMessages parseDate now pg"
    if agree: "\<forall>k \<le> n. pg' (messageSelectors ! k) = pg (messageSelectors ! k)" for pg'
  proof -
    from agree have same: "\<forall>k \<le> n. matches pg' (messageSelectors ! k) = matches pg (messageSelectors ! k)"
      by (simp add: matches_def)
    with assms have a2: "matches pg' (messageSelectors ! n) \<noteq> []"
      and a3: "\<forall>k < n. matches pg' (messageSelectors ! k) = []" by auto
    have "pushedMessages parseDate now pg' = pushMessages parseDate now (matches pg' (messageSelectors ! n)) 0 []"
      unfolding pushedMessages_def by (rule selectorLoop_first_match[OF assms(1) a2 a3])
    with same pushed show ?thesis by (simp add: extractMessages_def sortedMessages_def)
  qed
  then have later: "\<forall>pg'. (\<forall>k \<le> n. pg' (messageSelectors ! k) = pg (messageSelectors ! k))
             \<longrightarrow> extractMessages parseDate now pg' = extractMessages parseDate now pg"
    by blast
  from pushed extracted origin later show ?thesis by blast
qed

lemma iso_marks:
  "str_includes ''2024-01-01T00:00:00.000Z'' ''T''" "str_includes ''2024-01-01T00:00:00.000Z'' ''Z''"
  "str_includes ''2024-01-01T00:00:00.600Z'' ''T''" "str_includes ''2024-01-01T00:00:00.600Z'' ''Z''"
  "str_includes ''2024-01-01T00:00:01.200Z'' ''T''" "str_includes ''2024-01-01T00:00:01.200Z'' ''Z''"
  "str_includes ''2024-01-01T00:00:05.000Z'' ''T''" "str_includes ''2024-01-01T00:00:05.000Z'' ''Z''"
  by simp_all

lemma overlap_matches:
  "matches overlapPage (messageSelectors ! 0) = []"
  "matches overlapPage (messageSelectors ! 1) = []"
  "matches overlapPage (messageSelectors ! 2) =
     [stampedAs ''text-message'' ''hello'' ''2024-01-01T00:00:00.600Z'',
      stampedAs ''text-message'' ''second'' ''2024-01-01T00:00:00.000Z'']"
  by (simp_all add: messageSelectors_def overlapPage_def matches_def)

lemma overlap_pushed:
  "pushMessages isoParser (\<lambda>i. 0)
     [stampedAs ''text-message'' ''hello'' ''2024-01-01T00:00:00.600Z'',
      stampedAs ''text-message'' ''second'' ''2024-01-01T00:00:00.000Z''] 0 []
    = [textAt ''text-message'' ''hello'' ''2024-01-01T00:00:00.600Z'',
       textAt ''text-message'' ''second'' ''2024-01-01T00:00:00.000Z'']"
proof -
  have t: "trim ''hello'' = ''hello''" "trim ''hello'' \<noteq> []"
    "trim ''second'' = ''second''" "trim ''second'' \<noteq> []"
    by (simp_all add: trim_def is_space_def)
  have c: "''text-message'' \<notin> set ownMarkers" by (simp add: ownMarkers_def)
  have a: "extractMessageData isoParser 0
             (stampedAs ''text-message'' ''hello'' ''2024-01-01T00:00:00.600Z'') 0
             = Some (textAt ''text-message'' ''hello'' ''2024-01-01T00:00:00.600Z'')"
    using stamped_text_message[OF iso_values(2) iso_marks(3) iso_marks(4) t(2) c, of 0] t(1)
    by simp
  have b: "extractMessageData isoParser 0
             (stampedAs ''text-message'' ''second'' ''2024-01-01T00:00:00.000Z'') (Suc 0)
             = Some (textAt ''text-message'' ''second'' ''2024-01-01T00:00:00.000Z'')"
    using stamped_text_message[OF iso_values(1) iso_marks(1) iso_marks(2) t(4) c, of "Suc 0"] t(3)
    by simp
  show ?thesis by (simp add: a b textAt_def)
qed

lemma overlap_unique:
  "uniqueMessages isoParser (sort_key (timeValue isoParser)
     [textAt ''text-message'' ''hello'' ''2024-01-01T00:00:00.600Z'',
      textAt ''text-message'' ''second'' ''2024-01-01T00:00:00.000Z''])
   = [textAt ''text-message'' ''second'' ''2024-01-01T00:00:00.000Z'',
      textAt ''text-message'' ''hello'' ''2024-01-01T00:00:00.600Z'']"
  by (simp add: time_text iso_values) (simp add: uniqueMessages_def upt_rec same_text iso_values)

text \<open>
  The theorem on the page whose third candidate matches two stamped elements and whose
  eighteenth matches three: the result holds the two, in the order of their timestamps.
\<close>

theorem first_matching_selector_wins_witness:
  "(2::nat) < length messageSelectors
   \<and> matches overlapPage (messageSelectors ! 2) \<noteq> []
   \<and> map text_f (extractMessages isoParser (\<lambda>i. 0) overlapPage) = [''second'', ''hello'']"
proof -
  have len: "(2::nat) < length messageSelectors" by (simp add: messageSelectors_def)
  have hit: "matches overlapPage (messageSelectors ! 2) \<noteq> []" by (simp add: overlap_matches)
  have miss: "\<forall>k < (2::nat). matches overlapPage (messageSelectors ! k) = []"
  proof (intro allI impI)
    fix k :: nat assume "k < 2"
    then have "k = 0 \<or> k = 1" by arith
    then show "matches overlapPage (messageSelectors ! k) = []"
      using overlap_matches by auto
  qed
  from first_matching_selector_wins[OF len hit miss, of isoParser "\<lambda>i. 0"]
  have "extractMessages isoParser (\<lambda>i. 0) overlapPage
          = uniqueMessages isoParser (sort_key (timeValue isoParser)
              (pushMessages isoParser (\<lambda>i. 0) (matches overlapPage (messageSelectors ! 2)) 0 []))"
    by blast
  then have "map text_f (extractMessages isoParser (\<lambda>i. 0) overlapPage) = [''second'', ''hello'']"
    unfolding overlap_matches overlap_pushed overlap_unique by (simp add: textAt_def)
  with len hit show ?thesis by blast
qed

text \<open>
  Claim C10. \<^verbatim>\<open>getMessageCount\<close> is the largest number of matches over all the
  candidates (and 0 when there is none), so it is at least the number of elements matched by
  the first matching candidate, which are the elements \<^verbatim>\<open>extractMessages\<close> works on;
  the extraction never returns more messages than those, and on some page the count is larger
  than the number of messages extracted.
\<close>

theorem message_count_is_maximum:
  "getMessageCount pg = Max (insert 0 ((\<lambda>selector. length (matches pg selector)) ` set messageSelectors))
   \<and> pushedMessages parseDate now pg = pushMessages parseDate now (firstMatches pg messageSelectors) 0 []
   \<and> length (firstMatches pg messageSelectors) \<le> getMessageCount pg
   \<and> length (extractMessages parseDate now pg) \<le> length (firstMatches pg messageSelectors)
   \<and> (\<exists>pg'. length (extractMessages parseDate now pg') < getMessageCount pg')"
proof -
  have a: "getMessageCount pg = Max (insert 0 ((\<lambda>selector. length (matches pg selector)) ` set messageSelectors))"
    by (simp add: getMessageCount_def countLoop_Max)
  have b: "pushedMessages parseDate now pg = pushMessages parseDate now (firstMatches pg messageSelectors) 0 []"
    by (simp add: pushedMessages_def selectorLoop_firstMatches)
  have c: "length (firstMatches pg messageSelectors) \<le> getMessageCount pg"
    unfolding getMessageCount_def by (rule firstMatches_le_count)
  have "length (extractMessages parseDate now pg) \<le> length (pushedMessages parseDate now pg)"
    using length_uniqueMessages[of parseDate "sortedMessages parseDate now pg"]
    by (simp add: extractMessages_def sortedMessages_def)
  also have "\<dots> \<le> length (firstMatches pg messageSelectors)"
    using length_pushMessages[of parseDate now "firstMatches pg messageSelectors" 0 "[]"] b by simp
  finally have d: "length (extractMessages parseDate now pg) \<le> length (firstMatches pg messageSelectors)" .
  have cnt: "getMessageCount overlapPage = 3"
    by (simp add: getMessageCount_def messageSelectors_def overlapPage_def)
  have fm: "length (firstMatches overlapPage messageSelectors) = 2"
    by (simp add: messageSelectors_def overlapPage_def matches_def)
  have "length (extractMessages parseDate now overlapPage) \<le> length (firstMatches overlapPage messageSelectors)"
    using length_uniqueMessages[of parseDate "sortedMessages parseDate now overlapPage"]
      length_pushMessages[of parseDate now "firstMatches overlapPage messageSelectors" 0 "[]"]
    by (simp add: extractMessages_def sortedMessages_def pushedMessages_def selectorLoop_firstMatches)
  with cnt fm have "length (extractMessages parseDate now overlapPage) < getMessageCount overlapPage"
    by simp
  then have e: "\<exists>pg'. length (extractMessages parseDate now pg') < getMessageCount pg'" by blast
  from a b c d e show ?thesis by blast
qed

lemma findIndex_Some:
  "findIndex p xs = Some k \<Longrightarrow> k < length xs \<and> p (xs ! k) \<and> (\<forall>j < k. \<not> p (xs ! j))"
proof (induction xs arbitrary: k)
  case Nil
  then show ?case by simp
next
  case (Cons x xs)
  show ?case
  proof (cases "p x")
    case True
    with Cons.prems show ?thesis by simp
  next
    case False
    with Cons.prems obtain k' where k': "findIndex p xs = Some k'" "k = Suc k'" by auto
    from Cons.IH[OF k'(1)] False k'(2) show ?thesis
      by (auto simp: less_Suc_eq_0_disj)
  qed
qed

lemma findIndex_first:
  "k < length xs \<Longrightarrow> p (xs ! k) \<Longrightarrow> \<forall>j < k. \<not> p (xs ! j) \<Longrightarrow> findIndex p xs = Some k"
proof (induction xs arbitrary: k)
  case Nil
  then show ?case by simp
next
  case (Cons x xs)
  show ?case
  proof (cases k)
    case 0
    with Cons.prems show ?thesis by simp
  next
    case (Suc k')
    with Cons.prems have "\<not> p x" by auto
    moreover from Suc Cons.prems have "findIndex p xs = Some k'"
      by (intro Cons.IH) auto
    ultimately show ?thesis using Suc by simp
  qed
qed

lemma extractMessageData_valid_date:
  "extractMessageData P now el idx = Some m \<Longrightarrow> dateOf P (timestamp m) \<noteq> None"
  by (auto simp: extractMessageData_Some extractTimestamp_Inr dateOf_def)

lemma pushed_valid_date:
  assumes "m \<in> set (pushedMessages P now pg)"
  shows "dateOf P (timestamp m) = Some (timeValue P m)"
proof -
  from assms have "m \<in> set (pushMessages P now (firstMatches pg messageSelectors) 0 [])"
    by (simp add: pushedMessages_def selectorLoop_firstMatches)
  from pushMessages_from[OF this] obtain j where
    "extractMessageData P (now j) (firstMatches pg messageSelectors ! j) j = Some m" by auto
  from extractMessageData_valid_date[OF this] show ?thesis
    by (auto simp: timeValue_def)
qed

lemma sameMessage_valid:
  assumes "dateOf P (timestamp a) = Some (timeValue P a)" "dateOf P (timestamp b) = Some (timeValue P b)"
  shows "sameMessage P a b \<longleftrightarrow> text_f a = text_f b \<and> \<bar>timeValue P a - timeValue P b\<bar> < 1000"
  using assms by (simp add: sameMessage_def)

lemma uniqueMessages_first:
  assumes valid: "\<forall>m \<in> set s. dateOf P (timestamp m) = Some (timeValue P m)"
  shows "uniqueMessages P s =
     map (\<lambda>i. s ! i)
       (filter (\<lambda>i. \<forall>j < i. \<not> (text_f (s ! j) = text_f (s ! i)
                                  \<and> \<bar>timeValue P (s ! j) - timeValue P (s ! i)\<bar> < 1000))
          [0..<length s])"
proof -
  have "(findIndex (\<lambda>m. sameMessage P m (s ! i)) s = Some i)
      = (\<forall>j < i. \<not> (text_f (s ! j) = text_f (s ! i)
                      \<and> \<bar>timeValue P (s ! j) - timeValue P (s ! i)\<bar> < 1000))"
    if "i \<in> set [0..<length s]" for i
  proof -
    from that have i: "i < length s" by simp
    have same: "sameMessage P (s ! j) (s ! i) \<longleftrightarrow>
        text_f (s ! j) = text_f (s ! i) \<and> \<bar>timeValue P (s ! j) - timeValue P (s ! i)\<bar> < 1000"
      if "j \<le> i" for j
      using valid i that by (intro sameMessage_valid) auto
    show ?thesis
    proof
      assume "findIndex (\<lambda>m. sameMessage P m (s ! i)) s = Some i"
      from findIndex_Some[OF this] same show "\<forall>j < i. \<not> (text_f (s ! j) = text_f (s ! i)
                      \<and> \<bar>timeValue P (s ! j) - timeValue P (s ! i)\<bar> < 1000)"
        by auto
    next
      assume first: "\<forall>j < i. \<not> (text_f (s ! j) = text_f (s ! i)
                      \<and> \<bar>timeValue P (s ! j) - timeValue P (s ! i)\<bar> < 1000)"
      have self: "sameMessage P (s ! i) (s ! i)" using same[of i] by simp
      have "\<forall>j < i. \<not> sameMessage P (s ! j) (s ! i)" using first same by auto
      with i self show "findIndex (\<lambda>m. sameMessage P m (s ! i)) s = Some i"
        by (intro findIndex_first) auto
    qed
  qed
  then show ?thesis
    unfolding uniqueMessages_def by (intro arg_cong[where f = "map (\<lambda>i. s ! i)"] filter_cong) auto
qed

lemma kept_indices_apart:
  fixes K :: "nat \<Rightarrow> bool"
  assumes r: "r = map (\<lambda>i. s ! i) (filter K [0..<length s])"
    and "i < j" "j < length r"
  shows "\<exists>a b. a < b \<and> b < length s \<and> K b \<and> r ! i = s ! a \<and> r ! j = s ! b"
proof -
  let ?ks = "filter K [0..<length s]"
  from r assms(3) have j: "j < length ?ks" by simp
  with assms(2) have i: "i < length ?ks" by simp
  have "sorted_wrt (<) ?ks" by (simp add: sorted_wrt_filter)
  from sorted_wrt_nth_less[OF this assms(2) j] have lt: "?ks ! i < ?ks ! j" .
  from j have "?ks ! j \<in> set ?ks" by (rule nth_mem)
  then have "K (?ks ! j)" "?ks ! j < length s" by auto
  moreover from r i j have "r ! i = s ! (?ks ! i)" "r ! j = s ! (?ks ! j)" by simp_all
  ultimately show ?thesis using lt by blast
qed

text \<open>
  Claim C4, as the code has it. In the result of \<^verbatim>\<open>extractMessages\<close> no two messages
  have the same text and timestamps less than 1000 ms apart; every message of the result has a
  valid date, which \<open>timeValue\<close> is. The duplicates are removed after the sort: the array
  filtered is the pushed messages in ascending order of timestamp, those of equal timestamp in
  the order pushed, and a message of that array is kept exactly when no message before it in
  the array has its text and a timestamp less than 1000 ms from its own. So the occurrence
  kept is the first in timestamp order, not in iteration order: no pushed message with the
  text of a kept message and a timestamp less than 1000 ms from it is earlier than it.
\<close>

theorem duplicates_removed_earliest_kept:
  "(\<forall>i j. i < j \<and> j < length (extractMessages parseDate now pg) \<longrightarrow>
       \<not> (text_f (extractMessages parseDate now pg ! i) = text_f (extractMessages parseDate now pg ! j)
          \<and> \<bar>timeValue parseDate (extractMessages parseDate now pg ! i)
              - timeValue parseDate (extractMessages parseDate now pg ! j)\<bar> < 1000))
   \<and> (\<forall>m \<in> set (extractMessages parseDate now pg).
         dateOf parseDate (timestamp m) = Some (timeValue parseDate m))
   \<and> sorted (map (timeValue parseDate) (sortedMessages parseDate now pg))
   \<and> (\<forall>k. filter (\<lambda>m. timeValue parseDate m = k) (sortedMessages parseDate now pg)
            = filter (\<lambda>m. timeValue parseDate m = k) (pushedMessages parseDate now pg))
   \<and> extractMessages parseDate now pg =
       map (\<lambda>i. sortedMessages parseDate now pg ! i)
         (filter (\<lambda>i. \<forall>j < i.
              \<not> (text_f (sortedMessages parseDate now pg ! j) = text_f (sortedMessages parseDate now pg ! i)
                 \<and> \<bar>timeValue parseDate (sortedMessages parseDate now pg ! j)
                     - timeValue parseDate (sortedMessages parseDate now pg ! i)\<bar> < 1000))
            [0..<length (sortedMessages parseDate now pg)])
   \<and> (\<forall>m \<in> set (extractMessages parseDate now pg).
         \<forall>m' \<in> set (pushedMessages parseDate now pg).
           text_f m' = text_f m \<and> \<bar>timeValue parseDate m' - timeValue parseDate m\<bar> < 1000
           \<longrightarrow> timeValue parseDate m \<le> timeValue parseDate m')"
proof -
  let ?p = "pushedMessages parseDate now pg"
  let ?s = "sortedMessages parseDate now pg"
  let ?r = "extractMessages parseDate now pg"
  let ?K = "\<lambda>i. \<forall>j < i. \<not> (text_f (?s ! j) = text_f (?s ! i)
                 \<and> \<bar>timeValue parseDate (?s ! j) - timeValue parseDate (?s ! i)\<bar> < 1000)"
  have valid: "\<forall>m \<in> set ?s. dateOf parseDate (timestamp m) = Some (timeValue parseDate m)"
    by (simp add: sortedMessages_def pushed_valid_date)
  have first: "?r = map (\<lambda>i. ?s ! i) (filter ?K [0..<length ?s])"
    unfolding extractMessages_def by (rule uniqueMessages_first[OF valid])
  have apart: "\<not> (text_f (?r ! i) = text_f (?r ! j)
          \<and> \<bar>timeValue parseDate (?r ! i) - timeValue parseDate (?r ! j)\<bar> < 1000)"
    if "i < j" "j < length ?r" for i j
  proof -
    from kept_indices_apart[OF first that] obtain a b where
      "a < b" "b < length ?s" "?K b" "?r ! i = ?s ! a" "?r ! j = ?s ! b" by blast
    then show ?thesis by auto
  qed
  have "set ?r \<subseteq> set ?s" unfolding extractMessages_def by (rule set_uniqueMessages)
  with valid have rvalid: "\<forall>m \<in> set ?r. dateOf parseDate (timestamp m) = Some (timeValue parseDate m)"
    by blast
  have ordered: "sorted (map (timeValue parseDate) ?s)"
    by (simp add: sortedMessages_def)
  have stable: "\<forall>k. filter (\<lambda>m. timeValue parseDate m = k) ?s
            = filter (\<lambda>m. timeValue parseDate m = k) ?p"
    by (simp add: sortedMessages_def sort_key_stable)
  have earliest: "timeValue parseDate m \<le> timeValue parseDate m'"
    if m: "m \<in> set ?r" and m': "m' \<in> set ?p"
      and dup: "text_f m' = text_f m \<and> \<bar>timeValue parseDate m' - timeValue parseDate m\<bar> < 1000"
    for m m'
  proof -
    from m first obtain i where i: "i < length ?s" "?K i" "m = ?s ! i" by auto
    from m' have "m' \<in> set ?s" by (simp add: sortedMessages_def)
    then obtain k where k: "k < length ?s" "m' = ?s ! k" by (auto simp: in_set_conv_nth)
    have "\<not> k < i"
    proof
      assume "k < i"
      with i(2) have "\<not> (text_f (?s ! k) = text_f (?s ! i)
          \<and> \<bar>timeValue parseDate (?s ! k) - timeValue parseDate (?s ! i)\<bar> < 1000)" by blast
      with dup i(3) k(2) show False by simp
    qed
    then have "i \<le> k" by simp
    with ordered k(1) have "map (timeValue parseDate) ?s ! i \<le> map (timeValue parseDate) ?s ! k"
      by (intro sorted_nth_mono) simp_all
    with i k show ?thesis by simp
  qed
  then have early: "\<forall>m \<in> set ?r. \<forall>m' \<in> set ?p.
           text_f m' = text_f m \<and> \<bar>timeValue parseDate m' - timeValue parseDate m\<bar> < 1000
           \<longrightarrow> timeValue parseDate m \<le> timeValue parseDate m'"
    by blast
  from apart rvalid ordered stable first early show ?thesis by blast
qed

lemma stamped_pushed:
  assumes a: "isoParser s = Some x" "str_includes s ''T''" "str_includes s ''Z''"
  shows "pushMessages isoParser (\<lambda>i. 0) (stamped s # els) i acc
           = pushMessages isoParser (\<lambda>i. 0) els (Suc i) (acc @ [helloAt s])"
  using stamped_message[OF a, of i] by (simp add: helloAt_def textAt_def)

lemma burst_pushed:
  "pushedMessages isoParser (\<lambda>i. 0) burstPage =
     [helloAt ''2024-01-01T00:00:00.000Z'', helloAt ''2024-01-01T00:00:00.600Z'',
      helloAt ''2024-01-01T00:00:01.200Z'', helloAt ''2024-01-01T00:00:05.000Z'']"
proof -
  have fm: "firstMatches burstPage messageSelectors =
       [stamped ''2024-01-01T00:00:00.000Z'', stamped ''2024-01-01T00:00:00.600Z'',
        stamped ''2024-01-01T00:00:01.200Z'', stamped ''2024-01-01T00:00:05.000Z'']"
    by (simp add: messageSelectors_def burstPage_def matches_def)
  show ?thesis
    unfolding pushedMessages_def selectorLoop_firstMatches fm
    by (simp only: stamped_pushed[OF iso_values(1) iso_marks(1) iso_marks(2)]
        stamped_pushed[OF iso_values(2) iso_marks(3) iso_marks(4)]
        stamped_pushed[OF iso_values(3) iso_marks(5) iso_marks(6)]
        stamped_pushed[OF iso_values(4) iso_marks(7) iso_marks(8)]
        pushMessages.simps(1) append_Nil append_Cons)
qed

lemma burst_sorted:
  "sort_key (timeValue isoParser)
     [helloAt ''2024-01-01T00:00:00.000Z'', helloAt ''2024-01-01T00:00:00.600Z'',
      helloAt ''2024-01-01T00:00:01.200Z'', helloAt ''2024-01-01T00:00:05.000Z'']
   = [helloAt ''2024-01-01T00:00:00.000Z'', helloAt ''2024-01-01T00:00:00.600Z'',
      helloAt ''2024-01-01T00:00:01.200Z'', helloAt ''2024-01-01T00:00:05.000Z'']"
  unfolding helloAt_def by (simp add: time_text iso_values)

lemma burst_unique:
  "uniqueMessages isoParser
     [helloAt ''2024-01-01T00:00:00.000Z'', helloAt ''2024-01-01T00:00:00.600Z'',
      helloAt ''2024-01-01T00:00:01.200Z'', helloAt ''2024-01-01T00:00:05.000Z'']
   = [helloAt ''2024-01-01T00:00:00.000Z'', helloAt ''2024-01-01T00:00:05.000Z'']"
  unfolding helloAt_def by (simp add: uniqueMessages_def upt_rec same_text iso_values)

lemma burst_extracted:
  "extractMessages isoParser (\<lambda>i. 0) burstPage
   = [helloAt ''2024-01-01T00:00:00.000Z'', helloAt ''2024-01-01T00:00:05.000Z'']"
  unfolding extractMessages_def sortedMessages_def burst_pushed burst_sorted burst_unique ..

text \<open>
  The theorem on the page of four \<^verbatim>\<open>hello\<close> messages: the first and the last are
  kept, and they are five seconds apart.
\<close>

theorem duplicates_removed_earliest_kept_witness:
  "length (extractMessages isoParser (\<lambda>i. 0) burstPage) = 2
   \<and> text_f (extractMessages isoParser (\<lambda>i. 0) burstPage ! 0)
       = text_f (extractMessages isoParser (\<lambda>i. 0) burstPage ! 1)
   \<and> \<not> \<bar>timeValue isoParser (extractMessages isoParser (\<lambda>i. 0) burstPage ! 0)
          - timeValue isoParser (extractMessages isoParser (\<lambda>i. 0) burstPage ! 1)\<bar> < 1000
   \<and> length (pushedMessages isoParser (\<lambda>i. 0) burstPage) = 4"
proof -
  let ?r = "extractMessages isoParser (\<lambda>i. 0) burstPage"
  have len: "length ?r = 2" by (simp add: burst_extracted)
  have same_text: "text_f (?r ! 0) = text_f (?r ! 1)"
    by (simp add: burst_extracted helloAt_def textAt_def)
  have ij: "(0::nat) < 1 \<and> 1 < length ?r" using len by simp
  from duplicates_removed_earliest_kept[of isoParser "\<lambda>i. 0" burstPage] ij
  have "\<not> (text_f (?r ! 0) = text_f (?r ! 1)
          \<and> \<bar>timeValue isoParser (?r ! 0) - timeValue isoParser (?r ! 1)\<bar> < 1000)"
    by blast
  with same_text have "\<not> \<bar>timeValue isoParser (?r ! 0) - timeValue isoParser (?r ! 1)\<bar> < 1000"
    by blast
  moreover have "length (pushedMessages isoParser (\<lambda>i. 0) burstPage) = 4"
    by (simp add: burst_pushed)
  ultimately show ?thesis using len same_text by blast
qed

text \<open>
  Claim C4 as stated fails: on the page whose first \<^verbatim>\<open>hello\<close> is stamped 600 ms after
  its second, the two are duplicates, and the one kept is the second in iteration order; the
  first occurrence is dropped.
\<close>

theorem first_occurrence_dropped_counterexample:
  "map timestamp (pushedMessages isoParser (\<lambda>i. 0) laterFirstPage)
     = [''2024-01-01T00:00:00.600Z'', ''2024-01-01T00:00:00.000Z'']
   \<and> map text_f (pushedMessages isoParser (\<lambda>i. 0) laterFirstPage) = [''hello'', ''hello'']
   \<and> map timestamp (extractMessages isoParser (\<lambda>i. 0) laterFirstPage)
     = [''2024-01-01T00:00:00.000Z'']"
proof -
  have pushed: "pushedMessages isoParser (\<lambda>i. 0) laterFirstPage =
     [helloAt ''2024-01-01T00:00:00.600Z'', helloAt ''2024-01-01T00:00:00.000Z'']"
  proof -
    have fm: "firstMatches laterFirstPage messageSelectors =
         [stamped ''2024-01-01T00:00:00.600Z'', stamped ''2024-01-01T00:00:00.000Z'']"
      by (simp add: messageSelectors_def laterFirstPage_def matches_def)
    show ?thesis
      unfolding pushedMessages_def selectorLoop_firstMatches fm
      by (simp only: stamped_pushed[OF iso_values(1) iso_marks(1) iso_marks(2)]
          stamped_pushed[OF iso_values(2) iso_marks(3) iso_marks(4)]
          pushMessages.simps(1) append_Nil append_Cons)
  qed
  have sorted2: "sort_key (timeValue isoParser)
       [helloAt ''2024-01-01T00:00:00.600Z'', helloAt ''2024-01-01T00:00:00.000Z'']
     = [helloAt ''2024-01-01T00:00:00.000Z'', helloAt ''2024-01-01T00:00:00.600Z'']"
    unfolding helloAt_def by (simp add: time_text iso_values)
  have unique2: "uniqueMessages isoParser
       [helloAt ''2024-01-01T00:00:00.000Z'', helloAt ''2024-01-01T00:00:00.600Z'']
     = [helloAt ''2024-01-01T00:00:00.000Z'']"
    unfolding helloAt_def by (simp add: uniqueMessages_def upt_rec same_text iso_values)
  have "extractMessages isoParser (\<lambda>i. 0) laterFirstPage = [helloAt ''2024-01-01T00:00:00.000Z'']"
    unfolding extractMessages_def sortedMessages_def pushed sorted2 unique2 ..
  with pushed show ?thesis by (simp add: helloAt_def textAt_def)
qed

section \<open>Properties of the scroll loop\<close>

lemma count_pageWith: "getMessageCount (pageWith n) = n"
  by (simp add: getMessageCount_def messageSelectors_def pageWith_def)

lemma scrollLoop_bounds:
  "scrollLoop passes a prev = (n, e) \<Longrightarrow> a \<le> n \<and> (a \<le> maxScrollAttempts \<longrightarrow> n \<le> maxScrollAttempts)"
proof (induction passes a prev rule: scrollLoop.induct)
  case (1 passes a prev)
  show ?case
  proof (cases "a < maxScrollAttempts")
    case False
    with "1.prems" show ?thesis by (subst (asm) scrollLoop.simps) auto
  next
    case True
    let ?cur = "getMessageCount (pageState (passes a))"
    show ?thesis
    proof (cases "(?cur = prev \<and> 2 < a) \<or> scrollError (passes a) \<noteq> None")
      case True
      with \<open>a < maxScrollAttempts\<close> "1.prems" show ?thesis
        by (subst (asm) scrollLoop.simps) (auto simp: Let_def split: option.splits if_splits)
    next
      case False
      with \<open>a < maxScrollAttempts\<close> "1.prems"
      have rec: "scrollLoop passes (Suc a) ?cur = (n, e)"
        by (subst (asm) scrollLoop.simps) (auto simp: Let_def)
      from False have "\<not> (?cur = prev \<and> 2 < a)" "scrollError (passes a) = None" by auto
      from "1.IH"[OF \<open>a < maxScrollAttempts\<close> refl this rec] \<open>a < maxScrollAttempts\<close>
      show ?thesis by auto
    qed
  qed
qed

lemma scrollLoop_ends:
  assumes none: "\<forall>k. scrollError (passes k) = None"
  shows "scrollLoop passes a prev = (n, e) \<Longrightarrow> a = 0 \<or> prev = countRead passes (a - 1) \<Longrightarrow>
     a \<le> maxScrollAttempts \<Longrightarrow>
     (\<forall>j. a \<le> j \<and> j < n \<longrightarrow> \<not> stopsAt passes j)
     \<and> (e = NoNewMessages \<and> stopsAt passes n \<or> e = CapReached \<and> n = maxScrollAttempts)"
  using none
proof (induction passes a prev rule: scrollLoop.induct)
  case (1 passes a prev)
  from "1.prems"(4) have err: "scrollError (passes a) = None" by simp
  show ?case
  proof (cases "a < maxScrollAttempts")
    case False
    with "1.prems" show ?thesis by (subst (asm) scrollLoop.simps) auto
  next
    case True
    let ?cur = "getMessageCount (pageState (passes a))"
    have cur: "?cur = countRead passes a" by (simp add: countRead_def)
    show ?thesis
    proof (cases "?cur = prev \<and> 2 < a")
      case True
      with \<open>a < maxScrollAttempts\<close> "1.prems"(1) have "n = a" "e = NoNewMessages"
        by (subst (asm) scrollLoop.simps, simp add: Let_def)+
      moreover from True "1.prems"(2) \<open>a < maxScrollAttempts\<close> cur have "stopsAt passes a"
        by (auto simp: stopsAt_def)
      ultimately show ?thesis by auto
    next
      case False
      with \<open>a < maxScrollAttempts\<close> "1.prems"(1) err
      have rec: "scrollLoop passes (Suc a) ?cur = (n, e)"
        by (subst (asm) scrollLoop.simps) (auto simp: Let_def)
      have inv: "Suc a = 0 \<or> ?cur = countRead passes (Suc a - 1)" using cur by simp
      from \<open>a < maxScrollAttempts\<close> have le: "Suc a \<le> maxScrollAttempts" by simp
      from "1.IH"[OF \<open>a < maxScrollAttempts\<close> refl False err rec inv le "1.prems"(4)]
      have IH: "(\<forall>j. Suc a \<le> j \<and> j < n \<longrightarrow> \<not> stopsAt passes j)"
        "e = NoNewMessages \<and> stopsAt passes n \<or> e = CapReached \<and> n = maxScrollAttempts"
        by blast+
      from False "1.prems"(2) cur have "\<not> stopsAt passes a"
        by (auto simp: stopsAt_def)
      with IH(1) have "\<forall>j. a \<le> j \<and> j < n \<longrightarrow> \<not> stopsAt passes j"
        by (metis le_antisym not_less_eq_eq)
      with IH(2) show ?thesis by blast
    qed
  qed
qed

text \<open>
  Claim C6, as the code has it. The loop ends with at most 10 scrolls done, whatever happens.
  When no scroll throws it ends by its \<^verbatim>\<open>break\<close> or at the cap of 10; it breaks
  exactly when some attempt \<open>k\<close> with \<open>2 < k < 10\<close> reads the count of the attempt before,
  and then at the first such attempt: a single repeated read is enough once three scrolls are
  done, and no repeated read counts before. In particular, when the count still grew with the
  third scroll and did not with the fourth, the loop ends at attempt 4.
\<close>

theorem scroll_stops_at_first_repeated_count:
  "fst (scrollToLoadHistory passes) \<le> 10
   \<and> ((\<forall>k. scrollError (passes k) = None) \<longrightarrow>
        (snd (scrollToLoadHistory passes) = NoNewMessages \<or> snd (scrollToLoadHistory passes) = CapReached)
        \<and> (snd (scrollToLoadHistory passes) = NoNewMessages \<longleftrightarrow> (\<exists>k. stopsAt passes k))
        \<and> (snd (scrollToLoadHistory passes) = NoNewMessages \<longrightarrow>
             stopsAt passes (fst (scrollToLoadHistory passes))
             \<and> (\<forall>j < fst (scrollToLoadHistory passes). \<not> stopsAt passes j))
        \<and> (snd (scrollToLoadHistory passes) = CapReached \<longrightarrow> fst (scrollToLoadHistory passes) = 10)
        \<and> (countRead passes 2 < countRead passes 3 \<and> countRead passes 4 = countRead passes 3
             \<longrightarrow> scrollToLoadHistory passes = (4, NoNewMessages)))"
proof -
  obtain n e where r: "scrollLoop passes 0 0 = (n, e)" by (cases "scrollLoop passes 0 0")
  from scrollLoop_bounds[OF r] have bound: "n \<le> 10" by (simp add: maxScrollAttempts_def)
  have rest: "(e = NoNewMessages \<or> e = CapReached)
        \<and> (e = NoNewMessages \<longleftrightarrow> (\<exists>k. stopsAt passes k))
        \<and> (e = NoNewMessages \<longrightarrow> stopsAt passes n \<and> (\<forall>j < n. \<not> stopsAt passes j))
        \<and> (e = CapReached \<longrightarrow> n = 10)
        \<and> (countRead passes 2 < countRead passes 3 \<and> countRead passes 4 = countRead passes 3
             \<longrightarrow> (n, e) = (4, NoNewMessages))"
    if none: "\<forall>k. scrollError (passes k) = None"
  proof -
    from scrollLoop_ends[OF none r] have
      before: "\<forall>j < n. \<not> stopsAt passes j"
      and how: "e = NoNewMessages \<and> stopsAt passes n \<or> e = CapReached \<and> n = maxScrollAttempts"
      by auto
    have cap: "\<not> (\<exists>k. stopsAt passes k)" if "e = CapReached"
    proof -
      from how that have "n = maxScrollAttempts" by auto
      with before show ?thesis by (auto simp: stopsAt_def)
    qed
    have four: "(n, e) = (4, NoNewMessages)"
      if "countRead passes 2 < countRead passes 3 \<and> countRead passes 4 = countRead passes 3"
    proof -
      from that have s4: "stopsAt passes 4" and s3: "\<not> stopsAt passes 3"
        by (auto simp: stopsAt_def maxScrollAttempts_def)
      from s4 cap how have e: "e = NoNewMessages" and sn: "stopsAt passes n" by auto
      from before s4 have "\<not> 4 < n" by auto
      moreover from sn have "2 < n" by (simp add: stopsAt_def)
      moreover from sn s3 have "n \<noteq> 3" by auto
      ultimately have "n = 4" by arith
      with e show ?thesis by simp
    qed
    from how cap before four show ?thesis
      by (auto simp: maxScrollAttempts_def)
  qed
  have eq: "scrollToLoadHistory passes = (n, e)" by (simp add: scrollToLoadHistory_def r)
  show ?thesis unfolding eq fst_conv snd_conv using bound rest by blast
qed

lemma count_growing: "countRead growingPasses k = min (k + 1) 4"
  by (simp add: countRead_def growingPasses_def count_pageWith)

text \<open>The theorem on the history that stops growing after three scrolls.\<close>

theorem scroll_stops_at_first_repeated_count_witness:
  "(\<forall>k. scrollError (growingPasses k) = None)
   \<and> countRead growingPasses 2 < countRead growingPasses 3
   \<and> countRead growingPasses 4 = countRead growingPasses 3
   \<and> scrollToLoadHistory growingPasses = (4, NoNewMessages)"
proof -
  have none: "\<forall>k. scrollError (growingPasses k) = None" by (simp add: growingPasses_def)
  have counts: "countRead growingPasses 2 < countRead growingPasses 3
     \<and> countRead growingPasses 4 = countRead growingPasses 3"
    by (simp add: count_growing)
  from scroll_stops_at_first_repeated_count[of growingPasses] none counts
  have "scrollToLoadHistory growingPasses = (4, NoNewMessages)" by blast
  with none counts show ?thesis by blast
qed

text \<open>
  Claim C6 as stated fails: on that history the loop stops early at attempt 4, where the count
  has been unchanged for one read, not for more than two.
\<close>

theorem unchanged_once_counterexample:
  "scrollToLoadHistory growingPasses = (4, NoNewMessages)
   \<and> spec_unchangedReads (countRead growingPasses) 4 = 1
   \<and> \<not> 2 < spec_unchangedReads (countRead growingPasses) 4"
proof -
  have "scrollLoop growingPasses 0 0 = (4, NoNewMessages)"
    by (simp add: scrollLoop.simps maxScrollAttempts_def growingPasses_def count_pageWith)
  moreover have "spec_unchangedReads (countRead growingPasses) 4 = 1"
    by (simp add: count_growing eval_nat_numeral)
  ultimately show ?thesis by (simp add: scrollToLoadHistory_def)
qed

section \<open>Properties of the login\<close>

lemma performLogin_unfold:
  "performLogin world rnd =
     (case attemptBody (world 1) of
        Inr u \<Rightarrow> \<lparr> outcome = Inr (), attempts = 1, delays = [] \<rparr>
      | Inl e1 \<Rightarrow>
          (case attemptBody (world 2) of
             Inr u \<Rightarrow> \<lparr> outcome = Inr (), attempts = 2, delays = [randomDelay 2000 3000 (rnd 1)] \<rparr>
           | Inl e2 \<Rightarrow>
               (case attemptBody (world 3) of
                  Inr u \<Rightarrow> \<lparr> outcome = Inr (), attempts = 3,
                             delays = [randomDelay 2000 3000 (rnd 1), randomDelay 4000 5000 (rnd 2)] \<rparr>
                | Inl e3 \<Rightarrow> \<lparr> outcome = Inl (''Login failed after 3 attempts: '' @ e3), attempts = 3,
                             delays = [randomDelay 2000 3000 (rnd 1), randomDelay 4000 5000 (rnd 2)] \<rparr>)))"
proof -
  have three: "decimal 3 = ''3''" by (simp add: decimal.simps digits_def)
  have s2: "loginLoop AuthManager world rnd 2 ws =
     (case attemptBody (world 3) of
        Inr u \<Rightarrow> \<lparr> outcome = Inr (), attempts = 3, delays = ws \<rparr>
      | Inl e3 \<Rightarrow> \<lparr> outcome = Inl (''Login failed after 3 attempts: '' @ e3), attempts = 3,
                   delays = ws \<rparr>)" for ws
    by (subst loginLoop.simps) (simp add: AuthManager_def three del: One_nat_def split: sum.splits)
  have s1: "loginLoop AuthManager world rnd 1 ws =
     (case attemptBody (world 2) of
        Inr u \<Rightarrow> \<lparr> outcome = Inr (), attempts = 2, delays = ws \<rparr>
      | Inl e2 \<Rightarrow> loginLoop AuthManager world rnd 2 (ws @ [randomDelay 4000 5000 (rnd 2)]))" for ws
    by (subst loginLoop.simps) (simp add: AuthManager_def Let_def del: One_nat_def split: sum.splits)
  have s0: "loginLoop AuthManager world rnd 0 [] =
     (case attemptBody (world 1) of
        Inr u \<Rightarrow> \<lparr> outcome = Inr (), attempts = 1, delays = [] \<rparr>
      | Inl e1 \<Rightarrow> loginLoop AuthManager world rnd 1 [randomDelay 2000 3000 (rnd 1)])"
    by (subst loginLoop.simps) (simp add: AuthManager_def Let_def del: One_nat_def split: sum.splits)
  show ?thesis unfolding performLogin_def s0 s1 s2 by (simp split: sum.splits)
qed

lemma randomDelay_bounds: "lo \<le> randomDelay lo hi r \<and> (lo \<le> hi \<longrightarrow> randomDelay lo hi r \<le> hi)"
proof -
  have "r mod (hi - lo + 1) < hi - lo + 1" by simp
  then have "r mod (hi - lo + 1) \<le> hi - lo" by arith
  then show ?thesis unfolding randomDelay_def by arith
qed

text \<open>
  Claim C7. \<^verbatim>\<open>performLogin\<close> makes at most 3 attempts. It waits once after every
  failed attempt that is not the last, so the waits number one less than the attempts, and the
  wait after failed attempt \<open>j\<close> is at least \<open>retryDelay * 2 ^ (j - 1)\<close>. With two failures and
  then a success it succeeds on the third attempt and has waited at least the base delay plus
  twice the base delay; with three failures it throws an error whose message ends with the
  message of the last failure.
\<close>

theorem login_retries_with_backoff:
  "attempts (performLogin world rnd) \<le> 3
   \<and> length (delays (performLogin world rnd)) = attempts (performLogin world rnd) - 1
   \<and> (\<forall>i < length (delays (performLogin world rnd)).
         retryDelay AuthManager * 2 ^ i \<le> delays (performLogin world rnd) ! i
         \<and> (\<exists>e. attemptBody (world (i + 1)) = Inl e))
   \<and> (\<forall>j e. 1 \<le> j \<and> j < 3 \<and> j \<le> attempts (performLogin world rnd)
         \<and> attemptBody (world j) = Inl e
         \<longrightarrow> j \<le> length (delays (performLogin world rnd))
             \<and> retryDelay AuthManager * 2 ^ (j - 1) \<le> delays (performLogin world rnd) ! (j - 1))
   \<and> (\<forall>e1 e2. attemptBody (world 1) = Inl e1 \<and> attemptBody (world 2) = Inl e2
         \<and> attemptBody (world 3) = Inr ()
         \<longrightarrow> outcome (performLogin world rnd) = Inr ()
             \<and> attempts (performLogin world rnd) = 3
             \<and> retryDelay AuthManager + 2 * retryDelay AuthManager
                 \<le> sum_list (delays (performLogin world rnd)))
   \<and> (\<forall>e1 e2 e3. attemptBody (world 1) = Inl e1 \<and> attemptBody (world 2) = Inl e2
         \<and> attemptBody (world 3) = Inl e3
         \<longrightarrow> outcome (performLogin world rnd) = Inl (''Login failed after 3 attempts: '' @ e3)
             \<and> attempts (performLogin world rnd) = 3)"
proof -
  have d1: "2000 \<le> randomDelay 2000 3000 (rnd 1)" using randomDelay_bounds by blast
  have d2: "4000 \<le> randomDelay 4000 5000 (rnd 2)" using randomDelay_bounds by blast
  have a: "attempts (performLogin world rnd) \<le> 3"
    by (simp add: performLogin_unfold split: sum.splits)
  have b: "length (delays (performLogin world rnd)) = attempts (performLogin world rnd) - 1"
    by (simp add: performLogin_unfold split: sum.splits)
  have c: "\<forall>i < length (delays (performLogin world rnd)).
         retryDelay AuthManager * 2 ^ i \<le> delays (performLogin world rnd) ! i
         \<and> (\<exists>e. attemptBody (world (i + 1)) = Inl e)"
  proof (intro allI impI)
    fix i assume "i < length (delays (performLogin world rnd))"
    with a b have "i = 0 \<or> i = 1" by arith
    then show "retryDelay AuthManager * 2 ^ i \<le> delays (performLogin world rnd) ! i
         \<and> (\<exists>e. attemptBody (world (i + 1)) = Inl e)"
    proof
      assume i: "i = 0"
      with \<open>i < length (delays (performLogin world rnd))\<close> d1 show ?thesis
        by (auto simp: performLogin_unfold AuthManager_def split: sum.splits)
    next
      assume i: "i = 1"
      with \<open>i < length (delays (performLogin world rnd))\<close> d2 show ?thesis
        by (auto simp: performLogin_unfold AuthManager_def simp del: One_nat_def
            split: sum.splits)
    qed
  qed
  have f: "\<forall>j e. 1 \<le> j \<and> j < 3 \<and> j \<le> attempts (performLogin world rnd)
         \<and> attemptBody (world j) = Inl e
         \<longrightarrow> j \<le> length (delays (performLogin world rnd))
             \<and> retryDelay AuthManager * 2 ^ (j - 1) \<le> delays (performLogin world rnd) ! (j - 1)"
  proof (intro allI impI)
    fix j e
    assume h: "1 \<le> j \<and> j < 3 \<and> j \<le> attempts (performLogin world rnd)
         \<and> attemptBody (world j) = Inl e"
    then have "j = 1 \<or> j = 2" by arith
    then show "j \<le> length (delays (performLogin world rnd))
             \<and> retryDelay AuthManager * 2 ^ (j - 1) \<le> delays (performLogin world rnd) ! (j - 1)"
    proof
      assume "j = 1"
      with h d1 show ?thesis
        by (auto simp: performLogin_unfold AuthManager_def split: sum.splits)
    next
      assume "j = 2"
      with h d2 show ?thesis
        by (auto simp: performLogin_unfold AuthManager_def simp del: One_nat_def
            split: sum.splits)
    qed
  qed
  have d: "\<forall>e1 e2. attemptBody (world 1) = Inl e1 \<and> attemptBody (world 2) = Inl e2
         \<and> attemptBody (world 3) = Inr ()
         \<longrightarrow> outcome (performLogin world rnd) = Inr ()
             \<and> attempts (performLogin world rnd) = 3
             \<and> retryDelay AuthManager + 2 * retryDelay AuthManager
                 \<le> sum_list (delays (performLogin world rnd))"
    using d1 d2 by (auto simp: performLogin_unfold AuthManager_def)
  have e: "\<forall>e1 e2 e3. attemptBody (world 1) = Inl e1 \<and> attemptBody (world 2) = Inl e2
         \<and> attemptBody (world 3) = Inl e3
         \<longrightarrow> outcome (performLogin world rnd) = Inl (''Login failed after 3 attempts: '' @ e3)
             \<and> attempts (performLogin world rnd) = 3"
    by (auto simp: performLogin_unfold)
  from a b c f d e show ?thesis by blast
qed

lemmas attempt_simps = attemptBody_def isAlreadyLoggedIn_def fillLoginForm_def submitLoginForm_def
  waitForLoginResult_def loginResultBody_def truthy_def

lemma good_attempt: "attemptBody goodAttempt = Inr ()"
  by (simp add: goodAttempt_def attempt_simps)

lemma rejected_attempt:
  "attemptBody (goodAttempt\<lparr> race := WaitRejected ''net::ERR_FAILED'' \<rparr>) = Inl ''net::ERR_FAILED''"
  by (simp add: goodAttempt_def attempt_simps)

lemma hold_attempt: "attemptBody holdAttempt = Inl ''Login error detected''"
  by (simp add: holdAttempt_def goodAttempt_def attempt_simps)

text \<open>
  The theorem in the world of two rejected attempts and a good third, with every draw 0.
\<close>

theorem login_retries_with_backoff_witness:
  "attemptBody (twoFailures 1) = Inl ''net::ERR_FAILED''
   \<and> attemptBody (twoFailures 2) = Inl ''net::ERR_FAILED''
   \<and> attemptBody (twoFailures 3) = Inr ()
   \<and> outcome (performLogin twoFailures (\<lambda>k. 0)) = Inr ()
   \<and> attempts (performLogin twoFailures (\<lambda>k. 0)) = 3
   \<and> 6000 \<le> sum_list (delays (performLogin twoFailures (\<lambda>k. 0)))"
proof -
  have w: "attemptBody (twoFailures 1) = Inl ''net::ERR_FAILED''
    \<and> attemptBody (twoFailures 2) = Inl ''net::ERR_FAILED''
    \<and> attemptBody (twoFailures 3) = Inr ()"
    by (simp add: twoFailures_def good_attempt rejected_attempt)
  from login_retries_with_backoff[of twoFailures "\<lambda>k. 0"] w
  have "outcome (performLogin twoFailures (\<lambda>k. 0)) = Inr ()
     \<and> attempts (performLogin twoFailures (\<lambda>k. 0)) = 3
     \<and> retryDelay AuthManager + 2 * retryDelay AuthManager
         \<le> sum_list (delays (performLogin twoFailures (\<lambda>k. 0)))"
    by blast
  with w show ?thesis by (simp add: AuthManager_def)
qed

text \<open>
  Claim C1, as the code has it. An account-on-hold notice makes \<^verbatim>\<open>isLoggedIn\<close> answer
  false, after which \<^verbatim>\<open>login\<close> runs \<^verbatim>\<open>performLogin\<close> as for any stale session.
  Inside \<^verbatim>\<open>performLogin\<close> nothing reads the text of the error element when the error
  indicator wins the race: the attempt fails with \<^verbatim>\<open>Login error detected\<close> whatever
  the text. A failed first attempt is followed by a second and two failed attempts by a third,
  and the only error \<^verbatim>\<open>performLogin\<close> throws is the one after three failed attempts.
\<close>

theorem failed_attempt_is_retried:
  "(\<forall>t. accountIssue d = Some t \<and> str_includes t ''put on hold''
       \<longrightarrow> \<not> isLoggedIn d \<and> login cookies d world rnd = performLogin world rnd)
   \<and> (\<forall>a t. gotoError a = None \<and> \<not> isAlreadyLoggedIn a \<and> fillLoginForm a = Inr ()
         \<and> submitLoginForm a = Inr () \<and> race a = ErrorIndicator \<and> errorElement a = Some t
         \<longrightarrow> attemptBody a = Inl ''Login error detected'')
   \<and> (\<forall>e. attemptBody (world 1) = Inl e \<longrightarrow> 2 \<le> attempts (performLogin world rnd))
   \<and> (\<forall>e1 e2. attemptBody (world 1) = Inl e1 \<and> attemptBody (world 2) = Inl e2
         \<longrightarrow> attempts (performLogin world rnd) = 3)
   \<and> (\<forall>msg. outcome (performLogin world rnd) = Inl msg
         \<longrightarrow> attempts (performLogin world rnd) = 3
             \<and> (\<exists>e. attemptBody (world 3) = Inl e \<and> msg = ''Login failed after 3 attempts: '' @ e))"
proof -
  have a: "\<forall>t. accountIssue d = Some t \<and> str_includes t ''put on hold''
       \<longrightarrow> \<not> isLoggedIn d \<and> login cookies d world rnd = performLogin world rnd"
  proof (intro allI impI)
    fix t assume h: "accountIssue d = Some t \<and> str_includes t ''put on hold''"
    then have "t \<noteq> []" by auto
    with h have "\<not> isLoggedIn d" by (simp add: isLoggedIn_def)
    then show "\<not> isLoggedIn d \<and> login cookies d world rnd = performLogin world rnd"
      by (simp add: login_def)
  qed
  have b: "\<forall>a t. gotoError a = None \<and> \<not> isAlreadyLoggedIn a \<and> fillLoginForm a = Inr ()
         \<and> submitLoginForm a = Inr () \<and> race a = ErrorIndicator \<and> errorElement a = Some t
         \<longrightarrow> attemptBody a = Inl ''Login error detected''"
    by (simp add: attemptBody_def waitForLoginResult_def loginResultBody_def)
  have c: "\<forall>e. attemptBody (world 1) = Inl e \<longrightarrow> 2 \<le> attempts (performLogin world rnd)"
    by (auto simp: performLogin_unfold split: sum.splits)
  have d: "\<forall>e1 e2. attemptBody (world 1) = Inl e1 \<and> attemptBody (world 2) = Inl e2
         \<longrightarrow> attempts (performLogin world rnd) = 3"
    by (auto simp: performLogin_unfold split: sum.splits)
  have e: "\<forall>msg. outcome (performLogin world rnd) = Inl msg
         \<longrightarrow> attempts (performLogin world rnd) = 3
             \<and> (\<exists>e. attemptBody (world 3) = Inl e \<and> msg = ''Login failed after 3 attempts: '' @ e)"
    by (auto simp: performLogin_unfold split: sum.splits)
  from a b c d e show ?thesis by blast
qed

text \<open>
  The theorem on the dashboard with the notice and a world where every attempt shows it.
\<close>

theorem failed_attempt_is_retried_witness:
  "accountIssue holdDashboard = Some ''Your account has been put on hold''
   \<and> str_includes ''Your account has been put on hold'' ''put on hold''
   \<and> attemptBody holdAttempt = Inl ''Login error detected''
   \<and> \<not> isLoggedIn holdDashboard
   \<and> login True holdDashboard (\<lambda>k. holdAttempt) (\<lambda>k. 0) = performLogin (\<lambda>k. holdAttempt) (\<lambda>k. 0)
   \<and> attempts (performLogin (\<lambda>k. holdAttempt) (\<lambda>k. 0)) = 3"
proof -
  have h1: "accountIssue holdDashboard = Some ''Your account has been put on hold''
      \<and> str_includes ''Your account has been put on hold'' ''put on hold''"
    by (simp add: holdDashboard_def)
  have h2: "attemptBody ((\<lambda>k. holdAttempt) (1::nat)) = Inl ''Login error detected''
      \<and> attemptBody ((\<lambda>k. holdAttempt) (2::nat)) = Inl ''Login error detected''"
    by (simp add: hold_attempt)
  from failed_attempt_is_retried[of holdDashboard True "\<lambda>k. holdAttempt" "\<lambda>k. 0"] h1 h2
  have "\<not> isLoggedIn holdDashboard
      \<and> login True holdDashboard (\<lambda>k. holdAttempt) (\<lambda>k. 0) = performLogin (\<lambda>k. holdAttempt) (\<lambda>k. 0)
      \<and> attempts (performLogin (\<lambda>k. holdAttempt) (\<lambda>k. 0)) = 3"
    by blast
  with h1 h2 show ?thesis by simp
qed

text \<open>
  Claim C1 as stated fails: the account-on-hold text is in the error element on the first
  attempt, and the login goes on to make three attempts, waits twice, and ends with the error
  of any failed login.
\<close>

theorem account_on_hold_retried_counterexample:
  "errorElement holdAttempt = Some ''Your account has been put on hold''
   \<and> race holdAttempt = ErrorIndicator
   \<and> login True holdDashboard (\<lambda>k. holdAttempt) (\<lambda>k. 0)
       = \<lparr> outcome = Inl ''Login failed after 3 attempts: Login error detected'', attempts = 3,
           delays = [2000, 4000] \<rparr>"
  by (simp add: login_def isLoggedIn_def holdDashboard_def performLogin_unfold hold_attempt
      randomDelay_def)
     (simp add: holdAttempt_def goodAttempt_def)

section \<open>Properties of the typing and of the live listener\<close>

lemma typed_typeLoop: "typed (typeLoop rnd text i st) = typed st @ text"
  by (induction "text" arbitrary: i st)
     (simp_all add: Let_def waitRandom_def pressBackspace_def keyboardType_def)

text \<open>
  Claim C9 against the code. \<^verbatim>\<open>humanType\<close> hands every character of the text to the
  keyboard once and in order, and when no "mistake" is drawn the field ends with the text. A
  "mistake" presses \<^verbatim>\<open>Backspace\<close> before the next character is typed and types
  nothing again, so it deletes the character typed before: with the text \<^verbatim>\<open>ab\<close> in an
  empty field and a mistake drawn at the second character, the field ends with \<^verbatim>\<open>b\<close>.
\<close>

theorem backspace_deletes_typed_character:
  "typed (humanType rnd before text) = text
   \<and> content (humanType (\<lambda>k. 0) [] ''ab'') = ''b''
   \<and> backspaces (humanType (\<lambda>k. 0) [] ''ab'') = 1
   \<and> content (humanType (\<lambda>k. 50) [] ''ab'') = ''ab''"
proof -
  have a: "typed (humanType rnd before text) = text"
    by (simp add: humanType_def typed_typeLoop waitRandom_def)
  have b: "content (humanType (\<lambda>k. 0) [] ''ab'') = ''b''"
    by (simp add: humanType_def Let_def waitRandom_def pressBackspace_def keyboardType_def)
  have c: "backspaces (humanType (\<lambda>k. 0) [] ''ab'') = 1"
    by (simp add: humanType_def Let_def waitRandom_def pressBackspace_def keyboardType_def)
  have d: "content (humanType (\<lambda>k. 50) [] ''ab'') = ''ab''"
    by (simp add: humanType_def Let_def waitRandom_def pressBackspace_def keyboardType_def)
  from a b c d show ?thesis by blast
qed

lemma stealth_unbound: "stealthDelay listenerScope lo hi r = Inl ''stealth is not defined''"
  by (simp add: stealthDelay_def listenerScope_def)

text \<open>
  Claim C2 against the code. Nothing binds \<^verbatim>\<open>stealth\<close> in
  \<^verbatim>\<open>startLiveListener\<close>, so the delay that ends a cycle throws, the inner handler logs
  the error, and the backoff delay of the handler throws again, out of the loop. Whatever the
  page does, a listener whose callback says true once ends in its first cycle with that error,
  having waited never; one whose callback says false at once ends with no cycle.
\<close>

theorem live_listener_ends_in_first_cycle:
  "\<exists>st. startLiveListener parseDate conversationId None isListening world rnd
          = Some (if isListening 0 then Some ''stealth is not defined'' else None, st)
        \<and> cycles st = (if isListening 0 then 1 else 0)
        \<and> waits st = []"
proof (cases "isListening 0")
  case False
  then show ?thesis
    by (simp add: startLiveListener_def listenLoop.simps)
next
  case True
  obtain thrown store where p:
    "pollCycle parseDate conversationId (world 0) [] = (thrown, store)"
    by (cases "pollCycle parseDate conversationId (world 0) []")
  show ?thesis
  proof (cases thrown)
    case None
    with True p show ?thesis
      by (simp add: startLiveListener_def listenLoop.simps[of _ _ _ _ _ _ 0] stealth_unbound Let_def)
  next
    case (Some err)
    with True p show ?thesis
      by (simp add: startLiveListener_def listenLoop.simps[of _ _ _ _ _ _ 0] stealth_unbound Let_def)
  qed
qed

text \<open>The listener on a quiet page, with a callback that never ends it.\<close>

lemma quiet_listener:
  "startLiveListener (\<lambda>s. None) (Some ''c-1'') None (\<lambda>k. True) (\<lambda>k. quietCycle) (\<lambda>k. 0)
     = Some (Some ''stealth is not defined'',
             \<lparr> appended = [], logged = [''stealth is not defined''], waits = [], cycles = 1 \<rparr>)"
  by (simp add: startLiveListener_def listenLoop.simps[of _ _ _ _ _ _ 0] stealth_unbound Let_def
      pollCycle_def quietCycle_def)

end
